theory Spec2Isabelle
  imports Main "HOL-Library.AList"
begin

section \<open>Python values the model needs\<close>

text \<open>
  The exceptions that the modelled code can raise.  \<open>KeyError\<close> is what
  \<open>WalletBalances.__validateitem\<close> raises, \<open>AssertionError\<close> comes from the two
  \<open>assert\<close> statements of \<open>_describe_async\<close>, \<open>TypeError\<close> from \<open>Decimal(None)\<close>,
  \<open>InvalidOperation\<close> from \<open>round\<close> on a \<open>Decimal\<close>, \<open>AttributeError\<close> from the read of
  an attribute that no class provides, and \<open>CollaboratorError\<close> stands for any
  exception of an external lookup (chain query, price oracle, protocol module).
\<close>

datatype error =
    KeyError
  | AssertionError
  | TypeError
  | InvalidOperation
  | AttributeError
  | CollaboratorError string

subsection \<open>Decimal\<close>

text \<open>
  A finite \<open>decimal.Decimal\<close> is a coefficient and an exponent; it denotes
  \<open>coeff * 10 ^ expo\<close>.  The sign is part of the coefficient (a negative zero is not
  distinguished: it compares equal to zero and is falsy as well).  NaN and the infinities
  are outside the model, and so are the exponent limits \<open>Emin\<close>, \<open>Emax\<close> of the context
  (\<open>\<plusminus>999999\<close>).  The arithmetic context is Python's default one: 28 significant digits,
  \<open>ROUND_HALF_EVEN\<close>, \<open>InvalidOperation\<close> trapped.
\<close>

record dec =
  coeff :: int
  expo :: int

definition Decimal :: "int \<Rightarrow> dec" where
  \<comment> \<open>\<open>Decimal(n)\<close> for a Python int \<open>n\<close>; \<open>Decimal()\<close> is \<open>Decimal 0\<close>.\<close>
  "Decimal n = \<lparr>coeff = n, expo = 0\<rparr>"

definition prec :: nat where
  "prec = 28"

fun ndigits :: "nat \<Rightarrow> nat" where
  \<comment> \<open>\<open>len(str(n))\<close>, the length of the coefficient string.\<close>
  "ndigits n = (if n < 10 then 1 else Suc (ndigits (n div 10)))"

declare ndigits.simps [simp del]

definition round_half_even :: "nat \<Rightarrow> nat \<Rightarrow> nat" where
  \<comment> \<open>\<open>n / d\<close> rounded to the nearest integer, ties to the even one.\<close>
  "round_half_even n d =
     (let q = n div d; r = n mod d
      in if d < 2 * r \<or> (2 * r = d \<and> odd q) then q + 1 else q)"

definition dec_fix :: "dec \<Rightarrow> dec" where
  \<comment> \<open>\<open>Decimal._fix\<close>: round to the precision of the context when the coefficient is
      longer; a carry into a 29th digit drops the last (zero) digit again.\<close>
  "dec_fix d =
     (let n = ndigits (nat \<bar>coeff d\<bar>)
      in if n \<le> prec then d
         else let dropped = n - prec;
                  q = round_half_even (nat \<bar>coeff d\<bar>) (10 ^ dropped)
              in if prec < ndigits q
                 then \<lparr>coeff = sgn (coeff d) * int (q div 10), expo = expo d + int dropped + 1\<rparr>
                 else \<lparr>coeff = sgn (coeff d) * int q, expo = expo d + int dropped\<rparr>)"

definition dec_add :: "dec \<Rightarrow> dec \<Rightarrow> dec" where
  \<comment> \<open>\<open>Decimal.__add__\<close>: the exact sum at the smaller exponent, then \<open>_fix\<close>.\<close>
  "dec_add a b =
     (let m = min (expo a) (expo b)
      in dec_fix \<lparr>coeff = coeff a * 10 ^ nat (expo a - m) + coeff b * 10 ^ nat (expo b - m),
                  expo = m\<rparr>)"

definition dec_neg :: "dec \<Rightarrow> dec" where
  "dec_neg a = \<lparr>coeff = - coeff a, expo = expo a\<rparr>"

definition dec_sub :: "dec \<Rightarrow> dec \<Rightarrow> dec" where
  \<comment> \<open>\<open>Decimal.__sub__\<close> is \<open>self + (-other)\<close>.\<close>
  "dec_sub a b = dec_add a (dec_neg b)"

definition dec_mul :: "dec \<Rightarrow> dec \<Rightarrow> dec" where
  \<comment> \<open>\<open>Decimal.__mul__\<close>: the exact product, then \<open>_fix\<close>.\<close>
  "dec_mul a b = dec_fix \<lparr>coeff = coeff a * coeff b, expo = expo a + expo b\<rparr>"

definition dec_is_zero :: "dec \<Rightarrow> bool" where
  \<comment> \<open>\<open>d == 0\<close>\<close>
  "dec_is_zero d = (coeff d = 0)"

definition dec_eq :: "dec \<Rightarrow> dec \<Rightarrow> bool" where
  \<comment> \<open>\<open>a == b\<close>: Python compares two Decimals by numeric value, not by representation.\<close>
  "dec_eq a b =
     (let m = min (expo a) (expo b)
      in coeff a * 10 ^ nat (expo a - m) = coeff b * 10 ^ nat (expo b - m))"

definition dec_rescale :: "dec \<Rightarrow> int \<Rightarrow> dec" where
  \<comment> \<open>\<open>Decimal._rescale(exp, ROUND_HALF_EVEN)\<close>\<close>
  "dec_rescale d e =
     (if e \<le> expo d then \<lparr>coeff = coeff d * 10 ^ nat (expo d - e), expo = e\<rparr>
      else \<lparr>coeff = sgn (coeff d) * int (round_half_even (nat \<bar>coeff d\<bar>) (10 ^ nat (e - expo d))),
             expo = e\<rparr>)"

definition dec_round :: "dec \<Rightarrow> nat \<Rightarrow> error + dec" where
  \<comment> \<open>\<open>round(d, n)\<close>, which is \<open>d.quantize(Decimal('1E-n'))\<close>: \<open>InvalidOperation\<close> when the
      quantized coefficient would be longer than the precision of the context.\<close>
  "dec_round d n =
     (let e = - int n
      in if coeff d = 0 then Inr \<lparr>coeff = 0, expo = e\<rparr>
         else if int prec < int (ndigits (nat \<bar>coeff d\<bar>)) + expo d - 1 - e + 1
              then Inl InvalidOperation
         else let ans = dec_rescale d e
              in if prec < ndigits (nat \<bar>coeff ans\<bar>) then Inl InvalidOperation
                 else Inr ans)"

section \<open>typing.py: the balance containers\<close>

text \<open>
  Python dictionaries keep their keys distinct and in insertion order; they are modelled
  as association lists.  \<open>d[k] = v\<close> is \<open>AList.update\<close> (an existing key keeps its place,
  a new key goes to the end), \<open>k in d\<close> and the raw read are \<open>map_of\<close>.  Two dictionaries
  are equal in Python when they have the same keys with equal values, whatever the
  order: equality of dictionaries is equality of their \<open>map_of\<close>.

  Addresses are strings in canonical (checksummed) form, on which the key
  normalisation of \<open>DefaultChecksumDict\<close> is the identity.
\<close>

type_synonym address = string

definition defaultdict_getitem :: "'v \<Rightarrow> 'k \<Rightarrow> ('k \<times> 'v) list \<Rightarrow> 'v \<times> ('k \<times> 'v) list" where
  \<comment> \<open>\<open>d[k]\<close> on a \<open>defaultdict\<close>: a missing key is first stored with the value of the
      default factory (\<open>__missing__\<close>), then returned.  The dictionary after the read is
      the second component.\<close>
  "defaultdict_getitem dflt k d =
     (case map_of d k of
        Some v \<Rightarrow> (v, d)
      | None \<Rightarrow> (dflt, AList.update k dflt d))"

subsection \<open>Balance\<close>

record Balance =
  balance :: dec
  usd_value :: dec

definition Balance_default :: Balance where
  \<comment> \<open>\<open>Balance()\<close>: both fields default to \<open>Decimal()\<close>.\<close>
  "Balance_default = \<lparr>balance = Decimal 0, usd_value = Decimal 0\<rparr>"

definition Balance_add :: "Balance \<Rightarrow> Balance \<Rightarrow> Balance" where
  "Balance_add self other =
     \<lparr>balance = dec_add (balance self) (balance other),
      usd_value = dec_add (usd_value self) (usd_value other)\<rparr>"

definition Balance_sub :: "Balance \<Rightarrow> Balance \<Rightarrow> Balance" where
  "Balance_sub self other =
     \<lparr>balance = dec_sub (balance self) (balance other),
      usd_value = dec_sub (usd_value self) (usd_value other)\<rparr>"

definition Balance_bool :: "Balance \<Rightarrow> bool" where
  "Balance_bool self = (\<not> dec_is_zero (balance self) \<or> \<not> dec_is_zero (usd_value self))"

subsection \<open>TokenBalances\<close>

type_synonym TokenBalances = "(address \<times> Balance) list"

definition TokenBalances_getitem :: "address \<Rightarrow> TokenBalances \<Rightarrow> Balance \<times> TokenBalances" where
  \<comment> \<open>\<open>self[token]\<close>; the default factory is \<open>Balance\<close>.\<close>
  "TokenBalances_getitem token self = defaultdict_getitem Balance_default token self"

definition TokenBalances_setitem :: "address \<Rightarrow> Balance \<Rightarrow> TokenBalances \<Rightarrow> TokenBalances" where
  "TokenBalances_setitem token b self = AList.update token b self"

definition TokenBalances_sum_usd :: "TokenBalances \<Rightarrow> dec" where
  \<comment> \<open>\<open>Decimal(sum(balance.usd for balance in self.values()))\<close>: \<open>sum\<close> starts from the
      int \<open>0\<close> and adds from the left.\<close>
  "TokenBalances_sum_usd self = foldl dec_add (Decimal 0) (map (usd_value \<circ> snd) self)"

definition TokenBalances_bool :: "TokenBalances \<Rightarrow> bool" where
  \<comment> \<open>\<open>any(self.values())\<close>\<close>
  "TokenBalances_bool self = list_ex (Balance_bool \<circ> snd) self"

text \<open>
  \<open>TokenBalances.__add__\<close>.  The two loops run over the items of \<open>self\<close> and of \<open>other\<close>
  in turn; \<open>combined\<close> is the accumulator.

  The store is written \<open>combined._setattr_nochecksum(token, ...)\<close>.  No class of this
  repository defines that method; it is left to the base class \<open>DefaultChecksumDict\<close> of
  the package \<open>checksum_dict\<close>, which is not among the sources.

  The read is written \<open>combined.__getattr_nochecksum(token)\<close>.  A name with two leading
  underscores inside a class body is private to that class: within \<open>class
  TokenBalances\<close> Python compiles it to \<open>combined._TokenBalances__getattr_nochecksum\<close>.
  \<open>TokenBalances\<close> defines no such attribute and a base class cannot define one under
  that name, so the read raises \<open>AttributeError\<close>.  It is reached when a token with a
  truthy balance in \<open>other\<close> is already a key of \<open>combined\<close>; the store around it has
  not happened then, since its argument is evaluated first.
\<close>

definition setattr_nochecksum :: "address \<Rightarrow> Balance \<Rightarrow> TokenBalances \<Rightarrow> TokenBalances" where
  \<comment> \<open>Modelled from the spec: \<open>_setattr_nochecksum\<close> of the external base class
      \<open>DefaultChecksumDict\<close> (package \<open>checksum_dict\<close>, not in the sources) is the
      store of the keyed container (sections 3 and 9 of the spec) for a key that is
      already in canonical form: an existing key keeps its place, a new one goes to the
      end.\<close>
  "setattr_nochecksum token b self = AList.update token b self"

fun add_self_loop :: "TokenBalances \<Rightarrow> TokenBalances \<Rightarrow> TokenBalances" where
  \<comment> \<open>\<open>for token, balance in self.items(): if balance: ...\<close>\<close>
  "add_self_loop [] combined = combined"
| "add_self_loop ((token, b) # items) combined =
     add_self_loop items
       (if Balance_bool b
        then setattr_nochecksum token \<lparr>balance = balance b, usd_value = usd_value b\<rparr> combined
        else combined)"

fun add_other_loop :: "TokenBalances \<Rightarrow> TokenBalances \<Rightarrow> error + TokenBalances" where
  \<comment> \<open>\<open>for token, balance in other.items(): if balance: if token in combined: ... else: ...\<close>\<close>
  "add_other_loop [] combined = Inr combined"
| "add_other_loop ((token, b) # items) combined =
     (if Balance_bool b
      then (case map_of combined token of
              Some cur \<Rightarrow> Inl AttributeError
            | None \<Rightarrow>
                add_other_loop items
                  (setattr_nochecksum token \<lparr>balance = balance b, usd_value = usd_value b\<rparr>
                     combined))
      else add_other_loop items combined)"

definition TokenBalances_add :: "TokenBalances \<Rightarrow> TokenBalances \<Rightarrow> error + TokenBalances" where
  "TokenBalances_add self other = add_other_loop other (add_self_loop self [])"

subsection \<open>WalletBalances\<close>

type_synonym WalletBalances = "(string \<times> TokenBalances) list"

definition validateitem :: "string \<Rightarrow> error + unit" where
  \<comment> \<open>\<open>WalletBalances.__validateitem\<close>\<close>
  "validateitem key = (if key \<notin> set [''assets'', ''debt''] then Inl KeyError else Inr ())"

definition WalletBalances_setitem ::
  "string \<Rightarrow> TokenBalances \<Rightarrow> WalletBalances \<Rightarrow> error + WalletBalances" where
  "WalletBalances_setitem key v self =
     (case validateitem key of
        Inl e \<Rightarrow> Inl e
      | Inr _ \<Rightarrow> Inr (AList.update key v self))"

definition WalletBalances_getitem ::
  "string \<Rightarrow> WalletBalances \<Rightarrow> error + (TokenBalances \<times> WalletBalances)" where
  \<comment> \<open>The key is validated, then \<open>defaultdict.__getitem__\<close> runs: a missing key is
      stored with an empty \<open>TokenBalances()\<close> through \<open>__setitem__\<close>.  The second
      component is the container after the read.\<close>
  "WalletBalances_getitem key self =
     (case validateitem key of
        Inl e \<Rightarrow> Inl e
      | Inr _ \<Rightarrow>
          (case map_of self key of
             Some v \<Rightarrow> Inr (v, self)
           | None \<Rightarrow>
               (case WalletBalances_setitem key [] self of
                  Inl e \<Rightarrow> Inl e
                | Inr self' \<Rightarrow> Inr ([], self'))))"

definition WalletBalances_sum_usd :: "WalletBalances \<Rightarrow> error + (dec \<times> WalletBalances)" where
  \<comment> \<open>\<open>self.assets.sum_usd() - self.debt.sum_usd()\<close>; the properties \<open>assets\<close> and
      \<open>debt\<close> are \<open>self['assets']\<close> and \<open>self['debt']\<close>.\<close>
  "WalletBalances_sum_usd self =
     (case WalletBalances_getitem ''assets'' self of
        Inl e \<Rightarrow> Inl e
      | Inr (assets, self1) \<Rightarrow>
          (case WalletBalances_getitem ''debt'' self1 of
             Inl e \<Rightarrow> Inl e
           | Inr (debt, self2) \<Rightarrow>
               Inr (dec_sub (TokenBalances_sum_usd assets) (TokenBalances_sum_usd debt), self2)))"

definition WalletBalances_bool :: "WalletBalances \<Rightarrow> bool" where
  "WalletBalances_bool self = list_ex (TokenBalances_bool \<circ> snd) self"

subsection \<open>PortfolioBalances and PortfolioBalancesByCategory\<close>

type_synonym PortfolioBalances = "(address \<times> WalletBalances) list"

type_synonym WalletBalancesRaw = "(address \<times> TokenBalances) list"

type_synonym PortfolioBalancesByCategory = "(string \<times> WalletBalancesRaw) list"

text \<open>
  \<open>inverted[label][wallet] += tbalances\<close> in \<open>PortfolioBalances.inverted\<close>: both reads
  are \<open>defaultdict\<close> reads (\<open>PortfolioBalancesByCategory\<close> does not validate its keys),
  \<open>+=\<close> is \<open>TokenBalances.__add__\<close>, which may raise, followed by the store into the
  inner \<open>WalletBalancesRaw\<close>.  That inner dictionary is the object held by \<open>inverted\<close>,
  so the store shows in \<open>inverted[label]\<close>: the last update writes it back.
\<close>

definition inverted_iadd ::
  "string \<Rightarrow> address \<Rightarrow> TokenBalances \<Rightarrow> PortfolioBalancesByCategory \<Rightarrow>
   error + PortfolioBalancesByCategory" where
  "inverted_iadd label wallet tbalances inverted =
     (case defaultdict_getitem [] label inverted of
        (raw, inverted1) \<Rightarrow>
          (case defaultdict_getitem [] wallet raw of
             (cur, raw1) \<Rightarrow>
               (case TokenBalances_add cur tbalances of
                  Inl e \<Rightarrow> Inl e
                | Inr new \<Rightarrow>
                    Inr (AList.update label (AList.update wallet new raw1) inverted1))))"

fun inverted_labels ::
  "address \<Rightarrow> WalletBalances \<Rightarrow> PortfolioBalancesByCategory \<Rightarrow>
   error + PortfolioBalancesByCategory" where
  \<comment> \<open>\<open>for label, tbalances in wbalances.items(): if tbalances: ...\<close>\<close>
  "inverted_labels wallet [] inverted = Inr inverted"
| "inverted_labels wallet ((label, tbalances) # items) inverted =
     (if TokenBalances_bool tbalances
      then (case inverted_iadd label wallet tbalances inverted of
              Inl e \<Rightarrow> Inl e
            | Inr inverted' \<Rightarrow> inverted_labels wallet items inverted')
      else inverted_labels wallet items inverted)"

fun inverted_wallets ::
  "PortfolioBalances \<Rightarrow> PortfolioBalancesByCategory \<Rightarrow> error + PortfolioBalancesByCategory" where
  \<comment> \<open>\<open>for wallet, wbalances in self.items(): ...\<close>\<close>
  "inverted_wallets [] inverted = Inr inverted"
| "inverted_wallets ((wallet, wbalances) # items) inverted =
     (case inverted_labels wallet wbalances inverted of
        Inl e \<Rightarrow> Inl e
      | Inr inverted' \<Rightarrow> inverted_wallets items inverted')"

definition PortfolioBalances_inverted ::
  "PortfolioBalances \<Rightarrow> error + PortfolioBalancesByCategory" where
  "PortfolioBalances_inverted self = inverted_wallets self []"

text \<open>
  \<open>inverted[wallet][label] += tbalances\<close> in \<open>PortfolioBalancesByCategory.invert\<close>: the
  outer read is a \<open>defaultdict\<close> read with factory \<open>WalletBalances\<close>, the inner read
  and the store go through \<open>WalletBalances.__getitem__\<close> and \<open>__setitem__\<close>, which
  validate the label.
\<close>

definition invert_iadd ::
  "address \<Rightarrow> string \<Rightarrow> TokenBalances \<Rightarrow> PortfolioBalances \<Rightarrow> error + PortfolioBalances" where
  "invert_iadd wallet label tbalances inverted =
     (case defaultdict_getitem [] wallet inverted of
        (wb, inverted1) \<Rightarrow>
          (case WalletBalances_getitem label wb of
             Inl e \<Rightarrow> Inl e
           | Inr (cur, wb1) \<Rightarrow>
               (case TokenBalances_add cur tbalances of
                  Inl e \<Rightarrow> Inl e
                | Inr new \<Rightarrow>
                    (case WalletBalances_setitem label new wb1 of
                       Inl e \<Rightarrow> Inl e
                     | Inr wb2 \<Rightarrow> Inr (AList.update wallet wb2 inverted1)))))"

fun invert_wallets ::
  "string \<Rightarrow> WalletBalancesRaw \<Rightarrow> PortfolioBalances \<Rightarrow> error + PortfolioBalances" where
  \<comment> \<open>\<open>for wallet, tbalances in wtbalances.items(): if tbalances: ...\<close>\<close>
  "invert_wallets label [] inverted = Inr inverted"
| "invert_wallets label ((wallet, tbalances) # items) inverted =
     (if TokenBalances_bool tbalances
      then (case invert_iadd wallet label tbalances inverted of
              Inl e \<Rightarrow> Inl e
            | Inr inverted' \<Rightarrow> invert_wallets label items inverted')
      else invert_wallets label items inverted)"

fun invert_labels ::
  "PortfolioBalancesByCategory \<Rightarrow> PortfolioBalances \<Rightarrow> error + PortfolioBalances" where
  \<comment> \<open>\<open>for label, wtbalances in self.items(): ...\<close>\<close>
  "invert_labels [] inverted = Inr inverted"
| "invert_labels ((label, wtbalances) # items) inverted =
     (case invert_wallets label wtbalances inverted of
        Inl e \<Rightarrow> Inl e
      | Inr inverted' \<Rightarrow> invert_labels items inverted')"

definition PortfolioBalancesByCategory_invert ::
  "PortfolioBalancesByCategory \<Rightarrow> error + PortfolioBalances" where
  "PortfolioBalancesByCategory_invert self = invert_labels self []"

definition round_trip :: "PortfolioBalances \<Rightarrow> error + PortfolioBalances" where
  \<comment> \<open>\<open>p.inverted.invert()\<close>\<close>
  "round_trip p =
     (case PortfolioBalances_inverted p of
        Inl e \<Rightarrow> Inl e
      | Inr q \<Rightarrow> PortfolioBalancesByCategory_invert q)"

definition PortfolioBalances_view ::
  "PortfolioBalances \<Rightarrow> address \<Rightarrow> (string \<Rightarrow> (address \<Rightarrow> Balance option) option) option" where
  \<comment> \<open>What \<open>==\<close> compares on a \<open>PortfolioBalances\<close>: the keys and, level by level, the
      dictionaries below them, without the insertion order.\<close>
  "PortfolioBalances_view p =
     (\<lambda>wallet. map_option (\<lambda>wb label. map_option map_of (map_of wb label)) (map_of p wallet))"

subsection \<open>Reading and writing two levels, and the shape of a PortfolioBalances\<close>

definition lookup2 :: "('a \<times> ('b \<times> 'c) list) list \<Rightarrow> 'a \<Rightarrow> 'b \<Rightarrow> 'c option" where
  \<comment> \<open>The entry of a dictionary of dictionaries under two keys, without the default.\<close>
  "lookup2 d k1 k2 = (case map_of d k1 of None \<Rightarrow> None | Some inner \<Rightarrow> map_of inner k2)"

definition lookup3 :: "PortfolioBalances \<Rightarrow> address \<Rightarrow> string \<Rightarrow> address \<Rightarrow> Balance option" where
  \<comment> \<open>The \<open>Balance\<close> that \<open>p\<close> holds for a wallet, a category and a token, if any.\<close>
  "lookup3 p wallet label token =
     (case lookup2 p wallet label of None \<Rightarrow> None | Some tb \<Rightarrow> map_of tb token)"

definition or_empty :: "'a list option \<Rightarrow> 'a list" where
  "or_empty x = (case x of None \<Rightarrow> [] | Some v \<Rightarrow> v)"

definition store2 ::
  "'a \<Rightarrow> 'b \<Rightarrow> 'c \<Rightarrow> ('a \<times> ('b \<times> 'c) list) list \<Rightarrow> ('a \<times> ('b \<times> 'c) list) list" where
  \<comment> \<open>\<open>d[k1][k2] = v\<close> on a dictionary of dictionaries whose missing inner dictionary
      is created empty.\<close>
  "store2 k1 k2 v d = AList.update k1 (AList.update k2 v (or_empty (map_of d k1))) d"

definition nonzero :: "TokenBalances \<Rightarrow> TokenBalances" where
  \<comment> \<open>The truthy entries of a \<open>TokenBalances\<close>, in their order.\<close>
  "nonzero tb = filter (Balance_bool \<circ> snd) tb"

definition nested_distinct :: "('a \<times> ('b \<times> 'c) list) list \<Rightarrow> bool" where
  "nested_distinct d = (distinct (map fst d) \<and> (\<forall>x\<in>set d. distinct (map fst (snd x))))"

definition valid_label :: "string \<Rightarrow> bool" where
  "valid_label l = (l = ''assets'' \<or> l = ''debt'')"

definition PortfolioBalances_wf :: "PortfolioBalances \<Rightarrow> bool" where
  \<comment> \<open>What holds of every \<open>PortfolioBalances\<close> object: at each level it is a dictionary
      (distinct keys), and the keys of its \<open>WalletBalances\<close> passed the validation.\<close>
  "PortfolioBalances_wf p =
     (distinct (map fst p) \<and>
      (\<forall>(wallet, wb) \<in> set p. distinct (map fst wb) \<and>
         (\<forall>(label, tb) \<in> set wb. valid_label label \<and> distinct (map fst tb))))"

definition nonzero_pruned :: "PortfolioBalances \<Rightarrow> bool" where
  \<comment> \<open>No zero entry at any level: every \<open>WalletBalances\<close>, every \<open>TokenBalances\<close> and
      every \<open>Balance\<close> that \<open>p\<close> holds is truthy.\<close>
  "nonzero_pruned p =
     (\<forall>(wallet, wb) \<in> set p. WalletBalances_bool wb \<and>
        (\<forall>(label, tb) \<in> set wb. TokenBalances_bool tb \<and>
           (\<forall>(token, b) \<in> set tb. Balance_bool b)))"

section \<open>address.py: pricing and the snapshot of one wallet\<close>

definition calc_value :: "dec \<Rightarrow> dec option \<Rightarrow> error + dec" where
  \<comment> \<open>\<open>_calc_value(balance, price)\<close>; \<open>price\<close> is \<open>None\<close> when no price was found.
      Only \<open>InvalidOperation\<close> is caught around \<open>round\<close>.\<close>
  "calc_value amount price =
     (case price of
        None \<Rightarrow> Inr (Decimal 0)
      | Some p \<Rightarrow>
          (let v = dec_mul amount p
           in case dec_round v 18 of
                Inr r \<Rightarrow> Inr r
              | Inl e \<Rightarrow> if e = InvalidOperation then Inr v else Inl e))"

definition token_Balance :: "dec \<Rightarrow> dec option \<Rightarrow> error + Balance" where
  \<comment> \<open>\<open>Balance(Decimal(balance), _calc_value(balance, price))\<close> of
      \<open>_token_balances_async\<close>\<close>
  "token_Balance amount price =
     (case calc_value amount price of
        Inl e \<Rightarrow> Inl e
      | Inr v \<Rightarrow> Inr \<lparr>balance = amount, usd_value = v\<rparr>)"

definition eth_balance_async :: "dec \<Rightarrow> dec option \<Rightarrow> error + Balance" where
  \<comment> \<open>\<open>_eth_balance_async\<close> after its two lookups returned \<open>balance\<close> and \<open>price\<close>:
      \<open>value = round(balance * Decimal(price), 18)\<close>, then \<open>Balance(balance, value)\<close>.
      \<open>Decimal(None)\<close> raises \<open>TypeError\<close>; nothing is caught.\<close>
  "eth_balance_async amount price =
     (case price of
        None \<Rightarrow> Inl TypeError
      | Some p \<Rightarrow>
          (case dec_round (dec_mul amount p) 18 of
             Inl e \<Rightarrow> Inl e
           | Inr v \<Rightarrow> Inr \<lparr>balance = amount, usd_value = v\<rparr>))"

definition EEE_ADDRESS :: address where
  "EEE_ADDRESS = ''0xEeeeeEeeeEeEeeEeEeEeeEEEeeeeEeeeeeeeEEeE''"

subsection \<open>The block argument\<close>

text \<open>
  \<open>describe\<close> is annotated \<open>block: int\<close>, but Python does not enforce it: the two
  assertions of \<open>_describe_async\<close> see whatever the caller passed.
\<close>

datatype block_arg =
    BInt int
  | BBool bool
  | BNone
  | BStr string
  | BDec dec

fun block_truthy :: "block_arg \<Rightarrow> bool" where
  \<comment> \<open>\<open>bool(block)\<close>, what \<open>assert block\<close> tests\<close>
  "block_truthy (BInt i) = (i \<noteq> 0)"
| "block_truthy (BBool b) = b"
| "block_truthy BNone = False"
| "block_truthy (BStr s) = (s \<noteq> [])"
| "block_truthy (BDec d) = (\<not> dec_is_zero d)"

fun block_isinstance_int :: "block_arg \<Rightarrow> bool" where
  \<comment> \<open>\<open>isinstance(block, int)\<close>; \<open>bool\<close> is a subclass of \<open>int\<close>\<close>
  "block_isinstance_int (BInt i) = True"
| "block_isinstance_int (BBool b) = True"
| "block_isinstance_int _ = False"

subsection \<open>The five concurrent lookups and their completion order\<close>

text \<open>
  One call of \<open>describe\<close> awaits five lookups: \<open>_eth_balance_async\<close> and
  \<open>_token_balances_async\<close> (gathered by \<open>_balances_async\<close>), \<open>_debt_async\<close>, and
  \<open>_staking_async\<close> and \<open>_collateral_async\<close> (gathered by
  \<open>_external_balances_async\<close>).  What each of them returns or raises for the wallet and
  block at hand is a field of \<open>lookups\<close>; the protocol modules are taken to return
  \<open>TokenBalances\<close>.

  \<open>asyncio.gather\<close> hands back the results by the position of the awaitable, not by
  the time of its completion, and re-raises the first exception that occurs.  The
  lookups complete in some order, given as a list of requests: each completion either
  raises, which ends the call with that exception, or stores its result in the slot of
  its own request.  When both lookups of an inner gather have completed, the coroutine
  that awaited them goes on: \<open>_balances_async\<close> stores the native balance under
  \<open>EEE_ADDRESS\<close>, \<open>_external_balances_async\<close> adds the two balances, which may raise.
  Once the three results of the outer gather are there the assignment runs.  A request
  that never completes leaves \<open>describe\<close> waiting: the result is \<open>None\<close>.
\<close>

record lookups =
  eth_balance :: "error + Balance"
  token_balances :: "error + TokenBalances"
  debt :: "error + TokenBalances"
  staking :: "error + TokenBalances"
  collateral :: "error + TokenBalances"

datatype request = EthBalance | TokenBalancesOf | Debt | Staking | Collateral

record slots =
  eth_slot :: "Balance option"
  token_slot :: "TokenBalances option"
  debt_slot :: "TokenBalances option"
  staking_slot :: "TokenBalances option"
  collateral_slot :: "TokenBalances option"
  assets_slot :: "TokenBalances option"
  external_slot :: "TokenBalances option"

definition no_slots :: slots where
  "no_slots = \<lparr>eth_slot = None, token_slot = None, debt_slot = None,
               staking_slot = None, collateral_slot = None,
               assets_slot = None, external_slot = None\<rparr>"

definition balances_async :: "Balance \<Rightarrow> TokenBalances \<Rightarrow> TokenBalances" where
  \<comment> \<open>\<open>_balances_async\<close> after its gather: \<open>token_balances[EEE_ADDRESS] = eth_balance\<close>\<close>
  "balances_async eth tokens = TokenBalances_setitem EEE_ADDRESS eth tokens"

definition external_balances_async :: "TokenBalances \<Rightarrow> TokenBalances \<Rightarrow> error + TokenBalances" where
  \<comment> \<open>\<open>_external_balances_async\<close> after its gather: \<open>staked + collateral\<close>\<close>
  "external_balances_async staked coll = TokenBalances_add staked coll"

definition join_assets :: "slots \<Rightarrow> slots" where
  "join_assets s =
     (case (eth_slot s, token_slot s) of
        (Some e, Some t) \<Rightarrow> s\<lparr>assets_slot := Some (balances_async e t)\<rparr>
      | _ \<Rightarrow> s)"

definition join_external :: "slots \<Rightarrow> error + slots" where
  "join_external s =
     (case (staking_slot s, collateral_slot s) of
        (Some st, Some c) \<Rightarrow>
          (case external_balances_async st c of
             Inl e \<Rightarrow> Inl e
           | Inr x \<Rightarrow> Inr (s\<lparr>external_slot := Some x\<rparr>))
      | _ \<Rightarrow> Inr s)"

fun complete :: "lookups \<Rightarrow> request \<Rightarrow> slots \<Rightarrow> error + slots" where
  "complete lk EthBalance s =
     (case eth_balance lk of
        Inl e \<Rightarrow> Inl e
      | Inr v \<Rightarrow> Inr (join_assets (s\<lparr>eth_slot := Some v\<rparr>)))"
| "complete lk TokenBalancesOf s =
     (case token_balances lk of
        Inl e \<Rightarrow> Inl e
      | Inr v \<Rightarrow> Inr (join_assets (s\<lparr>token_slot := Some v\<rparr>)))"
| "complete lk Debt s =
     (case debt lk of Inl e \<Rightarrow> Inl e | Inr v \<Rightarrow> Inr (s\<lparr>debt_slot := Some v\<rparr>))"
| "complete lk Staking s =
     (case staking lk of
        Inl e \<Rightarrow> Inl e
      | Inr v \<Rightarrow> join_external (s\<lparr>staking_slot := Some v\<rparr>))"
| "complete lk Collateral s =
     (case collateral lk of
        Inl e \<Rightarrow> Inl e
      | Inr v \<Rightarrow> join_external (s\<lparr>collateral_slot := Some v\<rparr>))"

fun run_lookups :: "lookups \<Rightarrow> request list \<Rightarrow> slots \<Rightarrow> error + slots" where
  "run_lookups lk [] s = Inr s"
| "run_lookups lk (r # order) s =
     (case complete lk r s of Inl e \<Rightarrow> Inl e | Inr s' \<Rightarrow> run_lookups lk order s')"

definition gathered :: "slots \<Rightarrow> (TokenBalances \<times> TokenBalances \<times> TokenBalances) option" where
  \<comment> \<open>The three results of the gather in \<open>_describe_async\<close>, in the order of \<open>fns\<close>:
      assets, debt, external balances.\<close>
  "gathered s =
     (case (assets_slot s, debt_slot s, external_slot s) of
        (Some a, Some d, Some x) \<Rightarrow> Some (a, d, x)
      | _ \<Rightarrow> None)"

definition assign_balances ::
  "TokenBalances \<times> TokenBalances \<times> TokenBalances \<Rightarrow> error + WalletBalances" where
  \<comment> \<open>\<open>balances = WalletBalances()\<close> and the tuple assignment
      \<open>balances['assets'], balances['debt'], balances['external'] = ...\<close>, which stores
      from left to right.\<close>
  "assign_balances res =
     (case res of
        (a, d, x) \<Rightarrow>
          (case WalletBalances_setitem ''assets'' a [] of
             Inl e \<Rightarrow> Inl e
           | Inr b1 \<Rightarrow>
               (case WalletBalances_setitem ''debt'' d b1 of
                  Inl e \<Rightarrow> Inl e
                | Inr b2 \<Rightarrow> WalletBalances_setitem ''external'' x b2)))"

definition fan_out :: "request list \<Rightarrow> lookups \<Rightarrow> (error + WalletBalances) option" where
  \<comment> \<open>\<open>_describe_async\<close> after its assertions.\<close>
  "fan_out order lk =
     (case run_lookups lk order no_slots of
        Inl e \<Rightarrow> Some (Inl e)
      | Inr s \<Rightarrow> map_option assign_balances (gathered s))"

definition describe_async :: "block_arg \<Rightarrow> request list \<Rightarrow> lookups \<Rightarrow> (error + WalletBalances) option" where
  "describe_async block order lk =
     (if \<not> block_truthy block then Some (Inl AssertionError)
      else if \<not> block_isinstance_int block then Some (Inl AssertionError)
      else fan_out order lk)"

definition fns_order :: "request list" where
  \<comment> \<open>The lookups completing in the order in which the source lists them.\<close>
  "fns_order = [EthBalance, TokenBalancesOf, Debt, Staking, Collateral]"

definition slots_after ::
  "Balance \<Rightarrow> TokenBalances \<Rightarrow> TokenBalances \<Rightarrow> TokenBalances \<Rightarrow> TokenBalances \<Rightarrow>
   request set \<Rightarrow> slots" where
  \<comment> \<open>The slots once the requests in \<open>completed\<close> have completed with the results \<open>e\<close>,
      \<open>t\<close>, \<open>d\<close>, \<open>st\<close>, \<open>c\<close>; used to state what \<open>run_lookups\<close> computes.\<close>
  "slots_after e t d st c completed =
     \<lparr>eth_slot = (if EthBalance \<in> completed then Some e else None),
      token_slot = (if TokenBalancesOf \<in> completed then Some t else None),
      debt_slot = (if Debt \<in> completed then Some d else None),
      staking_slot = (if Staking \<in> completed then Some st else None),
      collateral_slot = (if Collateral \<in> completed then Some c else None),
      assets_slot =
        (if EthBalance \<in> completed \<and> TokenBalancesOf \<in> completed then Some (balances_async e t)
         else None),
      external_slot =
        (if Staking \<in> completed \<and> Collateral \<in> completed
         then (case external_balances_async st c of Inl _ \<Rightarrow> None | Inr x \<Rightarrow> Some x)
         else None)\<rparr>"

section \<open>Properties of the containers\<close>

subsection \<open>Decimal arithmetic and dictionaries\<close>

lemma ndigits_pos: "0 < ndigits n"
  by (subst ndigits.simps) simp

lemma ndigits_bound: "n < 10 ^ ndigits n"
proof (induction n rule: ndigits.induct)
  case (1 n)
  show ?case
  proof (cases "n < 10")
    case True
    then show ?thesis by (subst ndigits.simps) simp
  next
    case False
    with 1 have "n div 10 < 10 ^ ndigits (n div 10)" by simp
    then have "n < 10 * 10 ^ ndigits (n div 10)" by linarith
    with False show ?thesis by (subst ndigits.simps) simp
  qed
qed

lemma ndigits_le: "n < 10 ^ k \<Longrightarrow> 0 < k \<Longrightarrow> ndigits n \<le> k"
proof (induction n arbitrary: k rule: ndigits.induct)
  case (1 n)
  show ?case
  proof (cases "n < 10")
    case True
    with 1(3) show ?thesis by (subst ndigits.simps) simp
  next
    case False
    have "k \<noteq> 0" using 1(2) False by (intro notI) simp
    moreover have "k \<noteq> Suc 0" using 1(2) False by (intro notI) simp
    ultimately obtain j where j: "k = Suc j" "0 < j" by (cases k) auto
    from 1(2) j have "n div 10 < 10 ^ j" by simp
    from 1(1) [OF False this j(2)] False j show ?thesis
      by (subst ndigits.simps) simp
  qed
qed

lemma ndigits_times_10: "0 < n \<Longrightarrow> ndigits (n * 10) = Suc (ndigits n)"
  by (subst ndigits.simps) simp

lemma ndigits_times_power: "0 < n \<Longrightarrow> ndigits (n * 10 ^ k) = ndigits n + k"
proof (induction k)
  case 0
  show ?case by simp
next
  case (Suc k)
  have "ndigits (n * 10 ^ Suc k) = ndigits ((n * 10 ^ k) * 10)" by (simp add: ac_simps)
  also have "\<dots> = Suc (ndigits (n * 10 ^ k))" using Suc.prems by (intro ndigits_times_10) simp
  finally show ?case using Suc by simp
qed

lemma round_half_even_exact: "0 < d \<Longrightarrow> round_half_even (a * d) d = a"
  by (simp add: round_half_even_def)

lemma round_half_even_le: "round_half_even n d \<le> n div d + 1"
  by (simp add: round_half_even_def Let_def)

lemma ndigits_dec_fix: "ndigits (nat \<bar>coeff (dec_fix d)\<bar>) \<le> prec"
proof (cases "ndigits (nat \<bar>coeff d\<bar>) \<le> prec")
  case True
  then show ?thesis by (simp add: dec_fix_def)
next
  case False
  define n where "n = ndigits (nat \<bar>coeff d\<bar>)"
  define q where "q = round_half_even (nat \<bar>coeff d\<bar>) (10 ^ (n - prec))"
  from False have n: "prec < n" by (simp add: n_def)
  have c0: "coeff d \<noteq> 0"
  proof
    assume "coeff d = 0"
    then have "n = 1" by (simp add: n_def ndigits.simps)
    with n show False by (simp add: prec_def)
  qed
  have "nat \<bar>coeff d\<bar> < 10 ^ n" unfolding n_def by (rule ndigits_bound)
  also have "(10::nat) ^ n = 10 ^ prec * 10 ^ (n - prec)"
    using n by (simp flip: power_add)
  finally have "nat \<bar>coeff d\<bar> div 10 ^ (n - prec) < 10 ^ prec"
    by (simp add: less_mult_imp_div_less)
  with round_half_even_le [of "nat \<bar>coeff d\<bar>" "10 ^ (n - prec)"]
  have q: "q \<le> 10 ^ prec" by (simp add: q_def)
  have abs_sgn: "nat \<bar>sgn (coeff d) * int x\<bar> = x" for x
    using c0 by (simp add: abs_mult)
  show ?thesis
  proof (cases "prec < ndigits q")
    case True
    from q have "q div 10 < 10 ^ prec" by (simp add: prec_def) 
    then have "ndigits (q div 10) \<le> prec" by (rule ndigits_le) (simp add: prec_def)
    with True False show ?thesis
      by (simp add: dec_fix_def Let_def abs_sgn flip: n_def q_def)
  next
    case F: False
    with False show ?thesis
      by (simp add: dec_fix_def Let_def abs_sgn flip: n_def q_def)
  qed
qed

lemma dec_eq_refl: "dec_eq a a"
  by (simp add: dec_eq_def)

lemma dec_add_zero_eq:
  assumes "ndigits (nat \<bar>coeff s\<bar>) \<le> prec"
  shows "dec_eq (dec_add s (Decimal 0)) s"
proof (cases "expo s \<le> 0")
  case True
  then have "dec_add s (Decimal 0) = s"
    using assms by (simp add: dec_add_def Decimal_def dec_fix_def min_def)
  then show ?thesis by (simp add: dec_eq_refl)
next
  case False
  define k where "k = nat (expo s)"
  from False have k: "0 < k" "expo s = int k" by (simp_all add: k_def)
  have sum: "dec_add s (Decimal 0) = dec_fix \<lparr>coeff = coeff s * 10 ^ k, expo = 0\<rparr>"
    using False by (simp add: dec_add_def Decimal_def min_def k_def)
  show ?thesis
  proof (cases "coeff s = 0")
    case True
    then show ?thesis
      by (simp add: sum dec_fix_def ndigits.simps prec_def dec_eq_def)
  next
    case c0: False
    define a where "a = nat \<bar>coeff s\<bar>"
    have a: "0 < a" using c0 by (simp add: a_def)
    have abs: "nat \<bar>coeff s * 10 ^ k\<bar> = a * 10 ^ k"
      by (simp add: a_def abs_mult nat_mult_distrib nat_power_eq)
    have nd: "ndigits (a * 10 ^ k) = ndigits a + k"
      using a by (rule ndigits_times_power)
    show ?thesis
    proof (cases "ndigits a + k \<le> prec")
      case True
      then show ?thesis
        using k by (simp add: sum dec_fix_def abs nd dec_eq_def)
    next
      case big: False
      define dr where "dr = ndigits a + k - prec"
      from big assms have dr: "0 < dr" "dr \<le> k" by (simp_all add: dr_def a_def)
      have split: "a * 10 ^ k = (a * 10 ^ (k - dr)) * 10 ^ dr"
        using dr by (simp add: mult.assoc flip: power_add)
      have q: "round_half_even (a * 10 ^ k) (10 ^ dr) = a * 10 ^ (k - dr)"
        unfolding split by (rule round_half_even_exact) simp
      have ndq: "ndigits (a * 10 ^ (k - dr)) = prec"
        using a big assms dr by (simp add: ndigits_times_power dr_def a_def)
      have fixed: "dec_fix \<lparr>coeff = coeff s * 10 ^ k, expo = 0\<rparr> =
          \<lparr>coeff = sgn (coeff s * 10 ^ k) * int (a * 10 ^ (k - dr)), expo = int dr\<rparr>"
        using big by (simp add: dec_fix_def abs nd Let_def q ndq flip: dr_def)
      have sg: "sgn (coeff s * 10 ^ k) * int a = coeff s"
        by (simp add: a_def sgn_mult mult_sgn_abs)
      have "sgn (coeff s * 10 ^ k) * int (a * 10 ^ (k - dr)) = coeff s * 10 ^ (k - dr)"
        using sg by (simp flip: mult.assoc)
      then show ?thesis
        using dr k by (simp add: sum fixed dec_eq_def min_def nat_diff_distrib')
    qed
  qed
qed

lemma ndigits_sum_usd: "ndigits (nat \<bar>coeff (TokenBalances_sum_usd tb)\<bar>) \<le> prec"
proof (cases tb rule: rev_cases)
  case Nil
  then show ?thesis by (simp add: TokenBalances_sum_usd_def Decimal_def ndigits.simps prec_def)
next
  case (snoc ys y)
  then show ?thesis
    by (simp add: TokenBalances_sum_usd_def dec_add_def Let_def ndigits_dec_fix)
qed

lemma update_missing: "map_of d k = None \<Longrightarrow> AList.update k v d = d @ [(k, v)]"
  by (induction d) auto

lemma Balance_copy: "\<lparr>balance = balance b, usd_value = usd_value b\<rparr> = b"
  by (cases b) simp

lemma set_update_subset: "set (AList.update k v al) \<subseteq> insert (k, v) (set al)"
  by (induction al) auto

subsection \<open>Addition of TokenBalances\<close>

lemma add_self_loop_fresh:
  "distinct (map fst items) \<Longrightarrow> \<forall>x\<in>set items. map_of combined (fst x) = None \<Longrightarrow>
   add_self_loop items combined = combined @ nonzero items"
proof (induction items arbitrary: combined)
  case Nil
  show ?case by (simp add: nonzero_def)
next
  case (Cons p items)
  obtain token b where p: "p = (token, b)" by (cases p)
  from Cons.prems p have none: "map_of combined token = None" by simp
  show ?case
  proof (cases "Balance_bool b")
    case True
    have "\<forall>x\<in>set items. map_of (combined @ [(token, b)]) (fst x) = None"
      using Cons.prems p by (auto simp: map_add_def split: option.splits)
    with Cons.IH [of "combined @ [(token, b)]"] Cons.prems True none show ?thesis
      by (simp add: p setattr_nochecksum_def update_missing Balance_copy nonzero_def)
  next
    case False
    with Cons.IH [of combined] Cons.prems show ?thesis
      by (simp add: p nonzero_def)
  qed
qed

text \<open>
  What the second loop does: it raises as soon as a truthy entry of \<open>other\<close> meets a key
  of \<open>combined\<close>, and otherwise appends the truthy entries of \<open>other\<close>.
\<close>

lemma add_other_loop_outcome:
  "distinct (map fst items) \<Longrightarrow>
   add_other_loop items combined =
     (if \<exists>x\<in>set items. Balance_bool (snd x) \<and> map_of combined (fst x) \<noteq> None
      then Inl AttributeError
      else Inr (combined @ nonzero items))"
proof (induction items arbitrary: combined)
  case Nil
  show ?case by (simp add: nonzero_def)
next
  case (Cons p items)
  obtain token b where p: "p = (token, b)" by (cases p)
  from Cons.prems p have d: "distinct (map fst items)" and fresh: "\<forall>x\<in>set items. fst x \<noteq> token"
    by auto
  show ?case
  proof (cases "Balance_bool b")
    case False
    with Cons.IH [OF d, of combined] show ?thesis by (simp add: p nonzero_def)
  next
    case True
    show ?thesis
    proof (cases "map_of combined token")
      case (Some cur)
      with True show ?thesis by (auto simp: p)
    next
      case None
      have same: "map_of (combined @ [(token, b)]) (fst x) = map_of combined (fst x)"
        if "x \<in> set items" for x
        using fresh that by (auto simp: map_add_def split: option.splits)
      have "add_other_loop (p # items) combined = add_other_loop items (combined @ [(token, b)])"
        using True None by (simp add: p setattr_nochecksum_def update_missing Balance_copy)
      also have "\<dots> =
        (if \<exists>x\<in>set items. Balance_bool (snd x) \<and> map_of combined (fst x) \<noteq> None
         then Inl AttributeError
         else Inr ((combined @ [(token, b)]) @ nonzero items))"
        using same by (simp add: Cons.IH [OF d] cong: bex_cong)
      finally show ?thesis using True None by (simp add: p nonzero_def)
    qed
  qed
qed

lemma TokenBalances_add_outcome:
  "distinct (map fst a) \<Longrightarrow> distinct (map fst b) \<Longrightarrow>
   TokenBalances_add a b =
     (if \<exists>x\<in>set b. Balance_bool (snd x) \<and> map_of (nonzero a) (fst x) \<noteq> None
      then Inl AttributeError
      else Inr (nonzero a @ nonzero b))"
  using add_self_loop_fresh [of a "[]"]
  by (simp add: TokenBalances_add_def add_other_loop_outcome)

lemma TokenBalances_add_empty:
  "distinct (map fst tb) \<Longrightarrow> TokenBalances_add [] tb = Inr (nonzero tb)"
  by (simp add: TokenBalances_add_outcome nonzero_def)

text \<open>
  Claim C3.  \<open>add(c1, c2)\<close> is claimed to hold the keys of either input whose combined
  value is non-zero, and \<open>add({TOK: Money(5, 50)}, {TOK: Money(-5, -50)})\<close> to be the
  empty container.  The code has no result there: \<open>TOK\<close> is truthy in both operands, the
  second loop finds it in \<open>combined\<close> and the read of the entry raises
  \<open>AttributeError\<close>.  By \<open>TokenBalances_add_outcome\<close> this is what happens for every
  key that is non-zero in both operands, whatever the sum would be.
\<close>

theorem TokenBalances_add_cancelling_raises:
  "TokenBalances_add
     [(''TOK'', \<lparr>balance = Decimal 5, usd_value = Decimal 50\<rparr>)]
     [(''TOK'', \<lparr>balance = Decimal (- 5), usd_value = Decimal (- 50)\<rparr>)] =
   Inl AttributeError"
  by (simp add: TokenBalances_add_def setattr_nochecksum_def Balance_bool_def dec_is_zero_def
      Decimal_def)

text \<open>
  Claim C6.  \<open>add(a, b) == add(b, a)\<close> is claimed for every pair of TokenBalances.
  Where a token is non-zero in both, neither sum exists: with the token \<open>B\<close> in both
  operands \<open>add(a, b)\<close> raises \<open>AttributeError\<close>, and so does \<open>add(b, a)\<close>, so the
  comparison is never reached.  It is the defect that claim C3 meets.
\<close>

theorem TokenBalances_add_shared_key_raises:
  "TokenBalances_add
     [(''A'', \<lparr>balance = Decimal 5, usd_value = Decimal 50\<rparr>),
      (''B'', \<lparr>balance = Decimal 1, usd_value = Decimal 3\<rparr>)]
     [(''B'', \<lparr>balance = Decimal 2, usd_value = Decimal 6\<rparr>),
      (''C'', \<lparr>balance = Decimal 7, usd_value = Decimal 21\<rparr>)] =
   Inl AttributeError
   \<and> TokenBalances_add
     [(''B'', \<lparr>balance = Decimal 2, usd_value = Decimal 6\<rparr>),
      (''C'', \<lparr>balance = Decimal 7, usd_value = Decimal 21\<rparr>)]
     [(''A'', \<lparr>balance = Decimal 5, usd_value = Decimal 50\<rparr>),
      (''B'', \<lparr>balance = Decimal 1, usd_value = Decimal 3\<rparr>)] =
   Inl AttributeError"
  by (simp add: TokenBalances_add_def setattr_nochecksum_def Balance_bool_def dec_is_zero_def
      Decimal_def)

subsection \<open>The categories of a WalletBalances\<close>

lemma WalletBalances_getitem_valid:
  "key = ''assets'' \<or> key = ''debt'' \<Longrightarrow>
   WalletBalances_getitem key wb =
     Inr (case map_of wb key of Some t \<Rightarrow> (t, wb) | None \<Rightarrow> ([], AList.update key [] wb))"
  by (auto simp: WalletBalances_getitem_def WalletBalances_setitem_def validateitem_def
      split: option.splits)

text \<open>
  Claim C7.  A read or a write of a \<open>WalletBalances\<close> with a key other than
  \<open>'assets'\<close> and \<open>'debt'\<close> raises \<open>KeyError\<close> (the invalid-category condition), in
  particular the write of \<open>'collateral'\<close>; with one of the two keys the read is the
  \<open>defaultdict\<close> read and the write is the store, and neither raises.
\<close>

theorem WalletBalances_category_domain:
  "WalletBalances_getitem key wb =
     (if key = ''assets'' \<or> key = ''debt'' then Inr (defaultdict_getitem [] key wb)
      else Inl KeyError)
   \<and> WalletBalances_setitem key v wb =
     (if key = ''assets'' \<or> key = ''debt'' then Inr (AList.update key v wb) else Inl KeyError)
   \<and> WalletBalances_setitem ''collateral'' v wb = Inl KeyError"
  by (auto simp: WalletBalances_getitem_def WalletBalances_setitem_def validateitem_def
      defaultdict_getitem_def split: option.splits)

lemma WalletBalances_sum_usd_value:
  "map_sum id fst (WalletBalances_sum_usd wb) =
     Inr (dec_sub
       (TokenBalances_sum_usd (case map_of wb ''assets'' of Some t \<Rightarrow> t | None \<Rightarrow> []))
       (TokenBalances_sum_usd (case map_of wb ''debt'' of Some t \<Rightarrow> t | None \<Rightarrow> [])))"
  by (simp add: WalletBalances_sum_usd_def WalletBalances_getitem_valid update_conv'
      split: option.splits)

lemma TokenBalances_sum_usd_snoc:
  "TokenBalances_sum_usd (tb @ [(k, b)]) = dec_add (TokenBalances_sum_usd tb) (usd_value b)"
  by (simp add: TokenBalances_sum_usd_def)

text \<open>
  Claim C9.  \<open>sum_usd\<close> of a \<open>WalletBalances\<close> never raises and is the sum over the
  assets minus the sum over the debt, a missing category counting as an empty
  \<open>TokenBalances\<close>; the debt entries are stored with their positive amounts and
  subtracted here only.  For \<open>{assets: {TOK: Money(10, 100)}, debt: {TOK2: Money(2, 20)}}\<close>
  the net value is 80.
\<close>

theorem WalletBalances_sum_usd_net:
  "map_sum id fst (WalletBalances_sum_usd wb) =
     Inr (dec_sub
       (TokenBalances_sum_usd (case map_of wb ''assets'' of Some t \<Rightarrow> t | None \<Rightarrow> []))
       (TokenBalances_sum_usd (case map_of wb ''debt'' of Some t \<Rightarrow> t | None \<Rightarrow> [])))
   \<and> map_sum id fst (WalletBalances_sum_usd
        [(''assets'', [(''TOK'', \<lparr>balance = Decimal 10, usd_value = Decimal 100\<rparr>)]),
         (''debt'', [(''TOK2'', \<lparr>balance = Decimal 2, usd_value = Decimal 20\<rparr>)])]) =
     Inr (Decimal 80)"
proof
  show "map_sum id fst (WalletBalances_sum_usd wb) =
     Inr (dec_sub
       (TokenBalances_sum_usd (case map_of wb ''assets'' of Some t \<Rightarrow> t | None \<Rightarrow> []))
       (TokenBalances_sum_usd (case map_of wb ''debt'' of Some t \<Rightarrow> t | None \<Rightarrow> [])))"
    by (rule WalletBalances_sum_usd_value)
next
  show "map_sum id fst (WalletBalances_sum_usd
        [(''assets'', [(''TOK'', \<lparr>balance = Decimal 10, usd_value = Decimal 100\<rparr>)]),
         (''debt'', [(''TOK2'', \<lparr>balance = Decimal 2, usd_value = Decimal 20\<rparr>)])]) =
     Inr (Decimal 80)"
    by (simp add: WalletBalances_sum_usd_def WalletBalances_getitem_valid
        TokenBalances_sum_usd_def dec_sub_def dec_add_def dec_neg_def dec_fix_def Decimal_def
        ndigits.simps prec_def)
qed

subsection \<open>Reading a missing key\<close>

text \<open>
  Claim C10.  Reading a valid key that a container does not hold returns the zero of
  the level below and stores it under that key, at the end of the container: for a
  \<open>TokenBalances\<close> and a token never inserted, and for a \<open>WalletBalances\<close> and one of
  its two categories.  The container after the read has one key more, but the same
  truth value and the same \<open>sum_usd\<close>.
\<close>

theorem missing_key_read_inserts:
  "(map_of tb token = None \<longrightarrow>
      TokenBalances_getitem token tb = (Balance_default, tb @ [(token, Balance_default)])
      \<and> TokenBalances_bool (tb @ [(token, Balance_default)]) = TokenBalances_bool tb
      \<and> dec_eq (TokenBalances_sum_usd (tb @ [(token, Balance_default)]))
               (TokenBalances_sum_usd tb))
   \<and> ((key = ''assets'' \<or> key = ''debt'') \<and> map_of wb key = None \<longrightarrow>
      WalletBalances_getitem key wb = Inr ([], wb @ [(key, [])])
      \<and> WalletBalances_bool (wb @ [(key, [])]) = WalletBalances_bool wb
      \<and> map_sum id fst (WalletBalances_sum_usd (wb @ [(key, [])])) =
          map_sum id fst (WalletBalances_sum_usd wb))"
proof (intro conjI impI)
  assume "map_of tb token = None"
  then show "TokenBalances_getitem token tb = (Balance_default, tb @ [(token, Balance_default)])"
    by (simp add: TokenBalances_getitem_def defaultdict_getitem_def update_missing)
next
  show "TokenBalances_bool (tb @ [(token, Balance_default)]) = TokenBalances_bool tb"
    by (simp add: TokenBalances_bool_def Balance_bool_def Balance_default_def dec_is_zero_def
        Decimal_def)
next
  show "dec_eq (TokenBalances_sum_usd (tb @ [(token, Balance_default)]))
               (TokenBalances_sum_usd tb)"
    using dec_add_zero_eq [OF ndigits_sum_usd [of tb]]
    by (simp add: TokenBalances_sum_usd_snoc Balance_default_def)
next
  assume "(key = ''assets'' \<or> key = ''debt'') \<and> map_of wb key = None"
  then show "WalletBalances_getitem key wb = Inr ([], wb @ [(key, [])])"
    by (simp add: WalletBalances_getitem_valid update_missing)
next
  show "WalletBalances_bool (wb @ [(key, [])]) = WalletBalances_bool wb"
    by (simp add: WalletBalances_bool_def TokenBalances_bool_def)
next
  assume "(key = ''assets'' \<or> key = ''debt'') \<and> map_of wb key = None"
  then show "map_sum id fst (WalletBalances_sum_usd (wb @ [(key, [])])) =
          map_sum id fst (WalletBalances_sum_usd wb)"
    by (auto simp: WalletBalances_sum_usd_value map_add_def simp flip: map_add_Some_iff split: option.splits)
qed

theorem missing_key_read_inserts_witness:
  "map_of [(''TOK'', \<lparr>balance = Decimal 10, usd_value = Decimal 100\<rparr>)] ''TOK2'' = None
   \<and> TokenBalances_getitem ''TOK2'' [(''TOK'', \<lparr>balance = Decimal 10, usd_value = Decimal 100\<rparr>)] =
       (Balance_default,
        [(''TOK'', \<lparr>balance = Decimal 10, usd_value = Decimal 100\<rparr>), (''TOK2'', Balance_default)])
   \<and> map_of [(''debt'', [(''TOK'', \<lparr>balance = Decimal 2, usd_value = Decimal 20\<rparr>)])] ''assets'' = None
   \<and> WalletBalances_getitem ''assets''
        [(''debt'', [(''TOK'', \<lparr>balance = Decimal 2, usd_value = Decimal 20\<rparr>)])] =
       Inr ([], [(''debt'', [(''TOK'', \<lparr>balance = Decimal 2, usd_value = Decimal 20\<rparr>)]),
                 (''assets'', [])])"
  using missing_key_read_inserts
    [of "[(''TOK'', \<lparr>balance = Decimal 10, usd_value = Decimal 100\<rparr>)]" "''TOK2''" "''assets''"
        "[(''debt'', [(''TOK'', \<lparr>balance = Decimal 2, usd_value = Decimal 20\<rparr>)])]"]
  by simp

subsection \<open>Inversion and its round trip\<close>

text \<open>The truthy entries of a \<open>TokenBalances\<close>.\<close>

lemma distinct_nonzero: "distinct (map fst tb) \<Longrightarrow> distinct (map fst (nonzero tb))"
  by (simp add: nonzero_def distinct_map_filter)

lemma nonzero_idem: "nonzero (nonzero tb) = nonzero tb"
  by (simp add: nonzero_def o_def)

lemma TokenBalances_bool_nonzero: "TokenBalances_bool (nonzero tb) = TokenBalances_bool tb"
  by (induction tb) (auto simp: TokenBalances_bool_def nonzero_def)

lemma TokenBalances_bool_nonempty: "TokenBalances_bool tb \<Longrightarrow> nonzero tb \<noteq> []"
  by (induction tb) (auto simp: TokenBalances_bool_def nonzero_def)

lemma nonzero_all: "\<forall>x\<in>set tb. Balance_bool (snd x) \<Longrightarrow> nonzero tb = tb"
  by (induction tb) (auto simp: nonzero_def)

lemma map_of_nonzero:
  "distinct (map fst tb) \<Longrightarrow>
   map_of (nonzero tb) t =
     (case map_of tb t of Some b \<Rightarrow> if Balance_bool b then Some b else None | None \<Rightarrow> None)"
proof (induction tb)
  case Nil
  show ?case by (simp add: nonzero_def)
next
  case (Cons p tb)
  obtain k b where p: "p = (k, b)" by (cases p)
  from Cons.prems p have none: "map_of tb k = None" and d: "distinct (map fst tb)"
    by (auto simp: map_of_eq_None_iff)
  from Cons.IH [OF d] none show ?case
    by (auto simp: p nonzero_def split: option.splits)
qed

lemma map_of_all_zero:
  "\<not> TokenBalances_bool tb \<Longrightarrow> map_of tb t = Some b \<Longrightarrow> \<not> Balance_bool b"
  using map_of_SomeD [of tb t b] by (force simp: TokenBalances_bool_def list_ex_iff)

text \<open>A store under two keys.\<close>

lemma lookup2_store2:
  "lookup2 (store2 k1 k2 v d) a b = (if a = k1 \<and> b = k2 then Some v else lookup2 d a b)"
  by (auto simp: lookup2_def store2_def or_empty_def update_conv' split: option.splits)

lemma nested_distinct_store2:
  assumes "nested_distinct d"
  shows "nested_distinct (store2 k1 k2 v d)"
proof -
  have inner: "distinct (map fst (or_empty (map_of d k1)))"
    using assms by (auto simp: or_empty_def nested_distinct_def split: option.splits
        dest: map_of_SomeD)
  show ?thesis
    using assms inner
      set_update_subset [of k1 "AList.update k2 v (or_empty (map_of d k1))" d]
    by (auto simp: nested_distinct_def store2_def distinct_update)
qed

lemma keys_store2:
  assumes "\<forall>x\<in>set d. P (fst x)" "P k1"
  shows "\<forall>x\<in>set (store2 k1 k2 v d). P (fst x)"
  using assms set_update_subset [of k1 "AList.update k2 v (or_empty (map_of d k1))" d]
  by (auto simp: store2_def)

lemma nonempty_store2:
  assumes "\<forall>x\<in>set d. snd x \<noteq> []"
  shows "\<forall>x\<in>set (store2 k1 k2 v d). snd x \<noteq> []"
  using assms set_update_subset [of k1 "AList.update k2 v (or_empty (map_of d k1))" d]
  by (auto simp: store2_def)

text \<open>
  One \<open>+=\<close> of either inversion, on a slot that holds nothing yet: the sum is the
  addition to an empty \<open>TokenBalances\<close>, which never reads an entry.
\<close>

lemma inverted_iadd_fresh:
  assumes "lookup2 acc label wallet = None" "distinct (map fst tb)"
  shows "inverted_iadd label wallet tb acc = Inr (store2 label wallet (nonzero tb) acc)"
proof (cases "map_of acc label")
  case None
  then show ?thesis
    using assms(2)
    by (simp add: inverted_iadd_def defaultdict_getitem_def TokenBalances_add_empty store2_def
        or_empty_def)
next
  case (Some raw)
  with assms(1) have "map_of raw wallet = None" by (simp add: lookup2_def)
  with Some show ?thesis
    using assms(2)
    by (simp add: inverted_iadd_def defaultdict_getitem_def TokenBalances_add_empty store2_def
        or_empty_def)
qed

lemma invert_iadd_fresh:
  assumes "valid_label label" "lookup2 acc wallet label = None" "distinct (map fst tb)"
  shows "invert_iadd wallet label tb acc = Inr (store2 wallet label (nonzero tb) acc)"
proof -
  have v: "validateitem label = Inr ()"
    using assms(1) by (auto simp: validateitem_def valid_label_def)
  show ?thesis
  proof (cases "map_of acc wallet")
    case None
    then show ?thesis
      using assms(3)
      by (simp add: invert_iadd_def defaultdict_getitem_def WalletBalances_getitem_def
          WalletBalances_setitem_def v TokenBalances_add_empty store2_def or_empty_def)
  next
    case (Some wb)
    with assms(2) have "map_of wb label = None" by (simp add: lookup2_def)
    with Some show ?thesis
      using assms(3)
      by (simp add: invert_iadd_def defaultdict_getitem_def WalletBalances_getitem_def
          WalletBalances_setitem_def v TokenBalances_add_empty store2_def or_empty_def)
  qed
qed

text \<open>The loops of the two inversions, started on slots that hold nothing yet.\<close>

lemma inverted_labels_fresh:
  "distinct (map fst wb) \<Longrightarrow> \<forall>x\<in>set wb. distinct (map fst (snd x)) \<Longrightarrow>
   \<forall>x\<in>set wb. lookup2 acc (fst x) wallet = None \<Longrightarrow>
   \<exists>acc'. inverted_labels wallet wb acc = Inr acc'
     \<and> (\<forall>l w. lookup2 acc' l w =
          (if w = wallet
           then (case map_of wb l of
                   Some tb \<Rightarrow>
                     if TokenBalances_bool tb then Some (nonzero tb) else lookup2 acc l wallet
                 | None \<Rightarrow> lookup2 acc l wallet)
           else lookup2 acc l w))
     \<and> (nested_distinct acc \<longrightarrow> nested_distinct acc')
     \<and> ((\<forall>x\<in>set acc. valid_label (fst x)) \<longrightarrow> (\<forall>x\<in>set wb. valid_label (fst x)) \<longrightarrow>
          (\<forall>x\<in>set acc'. valid_label (fst x)))"
proof (induction wb arbitrary: acc)
  case Nil
  show ?case by simp
next
  case (Cons p items)
  obtain label tb where p: "p = (label, tb)" by (cases p)
  from Cons.prems p have none: "map_of items label = None" and d: "distinct (map fst items)"
    and dtb: "distinct (map fst tb)" and ditems: "\<forall>x\<in>set items. distinct (map fst (snd x))"
    and fresh_label: "lookup2 acc label wallet = None"
    and fresh_items: "\<forall>x\<in>set items. lookup2 acc (fst x) wallet = None"
    and other: "\<forall>x\<in>set items. fst x \<noteq> label"
    by (auto simp: map_of_eq_None_iff)
  define acc1 where
    "acc1 = (if TokenBalances_bool tb then store2 label wallet (nonzero tb) acc else acc)"
  have step: "inverted_labels wallet (p # items) acc = inverted_labels wallet items acc1"
    by (simp add: p acc1_def inverted_iadd_fresh [OF fresh_label dtb])
  have l1: "lookup2 acc1 l w =
      (if TokenBalances_bool tb \<and> l = label \<and> w = wallet then Some (nonzero tb)
       else lookup2 acc l w)" for l w
    by (simp add: acc1_def lookup2_store2)
  have fresh1: "\<forall>x\<in>set items. lookup2 acc1 (fst x) wallet = None"
    using fresh_items other by (simp add: l1)
  from Cons.IH [OF d ditems fresh1] obtain acc'
    where r: "inverted_labels wallet items acc1 = Inr acc'"
      and L: "\<And>l w. lookup2 acc' l w =
          (if w = wallet
           then (case map_of items l of
                   Some tb \<Rightarrow>
                     if TokenBalances_bool tb then Some (nonzero tb) else lookup2 acc1 l wallet
                 | None \<Rightarrow> lookup2 acc1 l wallet)
           else lookup2 acc1 l w)"
      and N: "nested_distinct acc1 \<Longrightarrow> nested_distinct acc'"
      and V: "\<forall>x\<in>set acc1. valid_label (fst x) \<Longrightarrow> \<forall>x\<in>set items. valid_label (fst x) \<Longrightarrow>
          \<forall>x\<in>set acc'. valid_label (fst x)"
    by blast
  have n1: "nested_distinct acc \<Longrightarrow> nested_distinct acc1"
    by (simp add: acc1_def nested_distinct_store2)
  have v1: "\<forall>x\<in>set acc. valid_label (fst x) \<Longrightarrow> valid_label label \<Longrightarrow>
      \<forall>x\<in>set acc1. valid_label (fst x)"
    using keys_store2 [of acc valid_label label wallet "nonzero tb"] by (simp add: acc1_def)
  show ?case
  proof (intro exI [of _ acc'] conjI allI impI)
    show "inverted_labels wallet (p # items) acc = Inr acc'"
      by (simp add: step r)
  next
    fix l w
    show "lookup2 acc' l w =
          (if w = wallet
           then (case map_of (p # items) l of
                   Some tb \<Rightarrow>
                     if TokenBalances_bool tb then Some (nonzero tb) else lookup2 acc l wallet
                 | None \<Rightarrow> lookup2 acc l wallet)
           else lookup2 acc l w)"
      using none fresh_label by (auto simp: L l1 p split: option.splits)
  next
    assume "nested_distinct acc"
    then show "nested_distinct acc'" by (intro N n1)
  next
    assume "\<forall>x\<in>set acc. valid_label (fst x)" and "\<forall>x\<in>set (p # items). valid_label (fst x)"
    then show "\<forall>x\<in>set acc'. valid_label (fst x)"
      using V v1 by (simp add: p)
  qed
qed

lemma inverted_wallets_fresh:
  "distinct (map fst p) \<Longrightarrow> \<forall>x\<in>set p. nested_distinct (snd x) \<Longrightarrow>
   \<forall>x\<in>set p. \<forall>l. lookup2 acc l (fst x) = None \<Longrightarrow>
   \<exists>acc'. inverted_wallets p acc = Inr acc'
     \<and> (\<forall>l w. lookup2 acc' l w =
          (case lookup2 p w l of
             Some tb \<Rightarrow> if TokenBalances_bool tb then Some (nonzero tb) else lookup2 acc l w
           | None \<Rightarrow> lookup2 acc l w))
     \<and> (nested_distinct acc \<longrightarrow> nested_distinct acc')
     \<and> ((\<forall>x\<in>set acc. valid_label (fst x)) \<longrightarrow>
          (\<forall>x\<in>set p. \<forall>y\<in>set (snd x). valid_label (fst y)) \<longrightarrow>
          (\<forall>x\<in>set acc'. valid_label (fst x)))"
proof (induction p arbitrary: acc)
  case Nil
  show ?case by (simp add: lookup2_def)
next
  case (Cons x items)
  obtain wallet wb where x: "x = (wallet, wb)" by (cases x)
  from Cons.prems x have none: "map_of items wallet = None" and d: "distinct (map fst items)"
    and dwb: "distinct (map fst wb)" and dtbs: "\<forall>y\<in>set wb. distinct (map fst (snd y))"
    and ditems: "\<forall>x\<in>set items. nested_distinct (snd x)"
    and fresh_wallet: "\<forall>l. lookup2 acc l wallet = None"
    and fresh_items: "\<forall>x\<in>set items. \<forall>l. lookup2 acc l (fst x) = None"
    and other: "\<forall>x\<in>set items. fst x \<noteq> wallet"
    by (auto simp: map_of_eq_None_iff nested_distinct_def)
  from fresh_wallet have fw: "\<forall>y\<in>set wb. lookup2 acc (fst y) wallet = None" by simp
  from inverted_labels_fresh [OF dwb dtbs fw] obtain acc1
    where r1: "inverted_labels wallet wb acc = Inr acc1"
      and L1: "\<And>l w. lookup2 acc1 l w =
          (if w = wallet
           then (case map_of wb l of
                   Some tb \<Rightarrow>
                     if TokenBalances_bool tb then Some (nonzero tb) else lookup2 acc l wallet
                 | None \<Rightarrow> lookup2 acc l wallet)
           else lookup2 acc l w)"
      and N1: "nested_distinct acc \<Longrightarrow> nested_distinct acc1"
      and V1: "\<forall>x\<in>set acc. valid_label (fst x) \<Longrightarrow> \<forall>x\<in>set wb. valid_label (fst x) \<Longrightarrow>
          \<forall>x\<in>set acc1. valid_label (fst x)"
    by blast
  have fresh1: "\<forall>x\<in>set items. \<forall>l. lookup2 acc1 l (fst x) = None"
    using fresh_items other by (simp add: L1)
  from Cons.IH [OF d ditems fresh1] obtain acc'
    where r: "inverted_wallets items acc1 = Inr acc'"
      and L: "\<And>l w. lookup2 acc' l w =
          (case lookup2 items w l of
             Some tb \<Rightarrow> if TokenBalances_bool tb then Some (nonzero tb) else lookup2 acc1 l w
           | None \<Rightarrow> lookup2 acc1 l w)"
      and N: "nested_distinct acc1 \<Longrightarrow> nested_distinct acc'"
      and V: "\<forall>x\<in>set acc1. valid_label (fst x) \<Longrightarrow>
          \<forall>x\<in>set items. \<forall>y\<in>set (snd x). valid_label (fst y) \<Longrightarrow>
          \<forall>x\<in>set acc'. valid_label (fst x)"
    by blast
  have l2: "lookup2 (x # items) w l = (if w = wallet then map_of wb l else lookup2 items w l)"
    for w l
    by (simp add: lookup2_def x)
  have none2: "lookup2 items wallet l = None" for l
    using none by (simp add: lookup2_def)
  show ?case
  proof (intro exI [of _ acc'] conjI allI impI)
    show "inverted_wallets (x # items) acc = Inr acc'"
      by (simp add: x r1 r)
  next
    fix l w
    show "lookup2 acc' l w =
          (case lookup2 (x # items) w l of
             Some tb \<Rightarrow> if TokenBalances_bool tb then Some (nonzero tb) else lookup2 acc l w
           | None \<Rightarrow> lookup2 acc l w)"
      using fresh_wallet by (auto simp: L L1 l2 none2 split: option.splits)
  next
    assume "nested_distinct acc"
    then show "nested_distinct acc'" by (intro N N1)
  next
    assume "\<forall>x\<in>set acc. valid_label (fst x)"
      and "\<forall>x\<in>set (x # items). \<forall>y\<in>set (snd x). valid_label (fst y)"
    then show "\<forall>x\<in>set acc'. valid_label (fst x)"
      using V V1 by (simp add: x)
  qed
qed

lemma invert_wallets_fresh:
  "valid_label label \<Longrightarrow> distinct (map fst raw) \<Longrightarrow>
   \<forall>x\<in>set raw. distinct (map fst (snd x)) \<Longrightarrow>
   \<forall>x\<in>set raw. lookup2 acc (fst x) label = None \<Longrightarrow>
   \<exists>acc'. invert_wallets label raw acc = Inr acc'
     \<and> (\<forall>w l. lookup2 acc' w l =
          (if l = label
           then (case map_of raw w of
                   Some tb \<Rightarrow>
                     if TokenBalances_bool tb then Some (nonzero tb) else lookup2 acc w label
                 | None \<Rightarrow> lookup2 acc w label)
           else lookup2 acc w l))
     \<and> ((\<forall>x\<in>set acc. snd x \<noteq> []) \<longrightarrow> (\<forall>x\<in>set acc'. snd x \<noteq> []))"
proof (induction raw arbitrary: acc)
  case Nil
  show ?case by simp
next
  case (Cons p items)
  obtain wallet tb where p: "p = (wallet, tb)" by (cases p)
  from Cons.prems p have none: "map_of items wallet = None" and d: "distinct (map fst items)"
    and dtb: "distinct (map fst tb)" and ditems: "\<forall>x\<in>set items. distinct (map fst (snd x))"
    and fresh_wallet: "lookup2 acc wallet label = None"
    and fresh_items: "\<forall>x\<in>set items. lookup2 acc (fst x) label = None"
    and other: "\<forall>x\<in>set items. fst x \<noteq> wallet"
    by (auto simp: map_of_eq_None_iff)
  define acc1 where
    "acc1 = (if TokenBalances_bool tb then store2 wallet label (nonzero tb) acc else acc)"
  have step: "invert_wallets label (p # items) acc = invert_wallets label items acc1"
    by (simp add: p acc1_def invert_iadd_fresh [OF Cons.prems(1) fresh_wallet dtb])
  have l1: "lookup2 acc1 w l =
      (if TokenBalances_bool tb \<and> w = wallet \<and> l = label then Some (nonzero tb)
       else lookup2 acc w l)" for w l
    by (simp add: acc1_def lookup2_store2)
  have fresh1: "\<forall>x\<in>set items. lookup2 acc1 (fst x) label = None"
    using fresh_items other by (simp add: l1)
  from Cons.IH [OF Cons.prems(1) d ditems fresh1] obtain acc'
    where r: "invert_wallets label items acc1 = Inr acc'"
      and L: "\<And>w l. lookup2 acc' w l =
          (if l = label
           then (case map_of items w of
                   Some tb \<Rightarrow>
                     if TokenBalances_bool tb then Some (nonzero tb) else lookup2 acc1 w label
                 | None \<Rightarrow> lookup2 acc1 w label)
           else lookup2 acc1 w l)"
      and E: "\<forall>x\<in>set acc1. snd x \<noteq> [] \<Longrightarrow> \<forall>x\<in>set acc'. snd x \<noteq> []"
    by blast
  have e1: "\<forall>x\<in>set acc. snd x \<noteq> [] \<Longrightarrow> \<forall>x\<in>set acc1. snd x \<noteq> []"
    using nonempty_store2 [of acc wallet label "nonzero tb"] by (simp add: acc1_def)
  show ?case
  proof (intro exI [of _ acc'] conjI allI impI)
    show "invert_wallets label (p # items) acc = Inr acc'"
      by (simp add: step r)
  next
    fix w l
    show "lookup2 acc' w l =
          (if l = label
           then (case map_of (p # items) w of
                   Some tb \<Rightarrow>
                     if TokenBalances_bool tb then Some (nonzero tb) else lookup2 acc w label
                 | None \<Rightarrow> lookup2 acc w label)
           else lookup2 acc w l)"
      using none fresh_wallet by (auto simp: L l1 p split: option.splits)
  next
    assume "\<forall>x\<in>set acc. snd x \<noteq> []"
    then show "\<forall>x\<in>set acc'. snd x \<noteq> []" by (intro E e1)
  qed
qed

lemma invert_labels_fresh:
  "nested_distinct q \<Longrightarrow> \<forall>x\<in>set q. valid_label (fst x) \<Longrightarrow>
   \<forall>x\<in>set q. \<forall>y\<in>set (snd x). distinct (map fst (snd y)) \<Longrightarrow>
   \<forall>x\<in>set q. \<forall>w. lookup2 acc w (fst x) = None \<Longrightarrow>
   \<exists>acc'. invert_labels q acc = Inr acc'
     \<and> (\<forall>w l. lookup2 acc' w l =
          (case lookup2 q l w of
             Some tb \<Rightarrow> if TokenBalances_bool tb then Some (nonzero tb) else lookup2 acc w l
           | None \<Rightarrow> lookup2 acc w l))
     \<and> ((\<forall>x\<in>set acc. snd x \<noteq> []) \<longrightarrow> (\<forall>x\<in>set acc'. snd x \<noteq> []))"
proof (induction q arbitrary: acc)
  case Nil
  show ?case by (simp add: lookup2_def)
next
  case (Cons x items)
  obtain label raw where x: "x = (label, raw)" by (cases x)
  from Cons.prems x have none: "map_of items label = None" and nd: "nested_distinct items"
    and draw: "distinct (map fst raw)" and v: "valid_label label"
    and vitems: "\<forall>x\<in>set items. valid_label (fst x)"
    and dtbs: "\<forall>y\<in>set raw. distinct (map fst (snd y))"
    and ditems: "\<forall>x\<in>set items. \<forall>y\<in>set (snd x). distinct (map fst (snd y))"
    and fresh_label: "\<forall>w. lookup2 acc w label = None"
    and fresh_items: "\<forall>x\<in>set items. \<forall>w. lookup2 acc w (fst x) = None"
    and other: "\<forall>x\<in>set items. fst x \<noteq> label"
    by (auto simp: map_of_eq_None_iff nested_distinct_def)
  from fresh_label have fl: "\<forall>y\<in>set raw. lookup2 acc (fst y) label = None" by simp
  from invert_wallets_fresh [OF v draw dtbs fl] obtain acc1
    where r1: "invert_wallets label raw acc = Inr acc1"
      and L1: "\<And>w l. lookup2 acc1 w l =
          (if l = label
           then (case map_of raw w of
                   Some tb \<Rightarrow>
                     if TokenBalances_bool tb then Some (nonzero tb) else lookup2 acc w label
                 | None \<Rightarrow> lookup2 acc w label)
           else lookup2 acc w l)"
      and E1: "\<forall>x\<in>set acc. snd x \<noteq> [] \<Longrightarrow> \<forall>x\<in>set acc1. snd x \<noteq> []"
    by blast
  have fresh1: "\<forall>x\<in>set items. \<forall>w. lookup2 acc1 w (fst x) = None"
    using fresh_items other by (simp add: L1)
  from Cons.IH [OF nd vitems ditems fresh1] obtain acc'
    where r: "invert_labels items acc1 = Inr acc'"
      and L: "\<And>w l. lookup2 acc' w l =
          (case lookup2 items l w of
             Some tb \<Rightarrow> if TokenBalances_bool tb then Some (nonzero tb) else lookup2 acc1 w l
           | None \<Rightarrow> lookup2 acc1 w l)"
      and E: "\<forall>x\<in>set acc1. snd x \<noteq> [] \<Longrightarrow> \<forall>x\<in>set acc'. snd x \<noteq> []"
    by blast
  have l2: "lookup2 (x # items) l w = (if l = label then map_of raw w else lookup2 items l w)"
    for l w
    by (simp add: lookup2_def x)
  have none2: "lookup2 items label w = None" for w
    using none by (simp add: lookup2_def)
  show ?case
  proof (intro exI [of _ acc'] conjI allI impI)
    show "invert_labels (x # items) acc = Inr acc'"
      by (simp add: x r1 r)
  next
    fix w l
    show "lookup2 acc' w l =
          (case lookup2 (x # items) l w of
             Some tb \<Rightarrow> if TokenBalances_bool tb then Some (nonzero tb) else lookup2 acc w l
           | None \<Rightarrow> lookup2 acc w l)"
      using fresh_label by (auto simp: L L1 l2 none2 split: option.splits)
  next
    assume "\<forall>x\<in>set acc. snd x \<noteq> []"
    then show "\<forall>x\<in>set acc'. snd x \<noteq> []" by (intro E E1)
  qed
qed

lemma map_of_first: "xs \<noteq> [] \<Longrightarrow> \<exists>k v. map_of xs k = Some v"
  by (cases xs) auto

lemma lookup2_Some_D:
  "lookup2 d k1 k2 = Some v \<Longrightarrow> \<exists>inner. (k1, inner) \<in> set d \<and> (k2, v) \<in> set inner"
  by (auto simp: lookup2_def split: option.splits dest: map_of_SomeD)

lemma lookup2_Some_I:
  "nested_distinct d \<Longrightarrow> (k1, inner) \<in> set d \<Longrightarrow> (k2, v) \<in> set inner \<Longrightarrow>
   lookup2 d k1 k2 = Some v"
  by (fastforce simp: lookup2_def nested_distinct_def)

lemma PortfolioBalances_wf_D:
  assumes "PortfolioBalances_wf p"
  shows "distinct (map fst p)" "\<forall>x\<in>set p. nested_distinct (snd x)"
    "\<forall>x\<in>set p. \<forall>y\<in>set (snd x). valid_label (fst y)"
    "\<And>w l tb. lookup2 p w l = Some tb \<Longrightarrow> distinct (map fst tb)"
proof -
  show "distinct (map fst p)"
    using assms by (simp add: PortfolioBalances_wf_def)
  show "\<forall>x\<in>set p. nested_distinct (snd x)"
    using assms by (fastforce simp: PortfolioBalances_wf_def nested_distinct_def)
  show "\<forall>x\<in>set p. \<forall>y\<in>set (snd x). valid_label (fst y)"
    using assms by (fastforce simp: PortfolioBalances_wf_def)
  show "distinct (map fst tb)" if "lookup2 p w l = Some tb" for w l tb
  proof -
    from lookup2_Some_D [OF that] obtain wb where "(w, wb) \<in> set p" "(l, tb) \<in> set wb"
      by blast
    with assms show ?thesis by (fastforce simp: PortfolioBalances_wf_def)
  qed
qed

text \<open>
  The round trip of a well-formed portfolio does not raise, and under every wallet and
  category it holds the truthy entries of the \<open>TokenBalances\<close> that \<open>p\<close> holds there, when
  there are any.
\<close>

lemma round_trip_lookup2:
  assumes wf: "PortfolioBalances_wf p"
  shows "\<exists>p'. round_trip p = Inr p'
     \<and> (\<forall>w l. lookup2 p' w l =
          (case lookup2 p w l of
             Some tb \<Rightarrow> if TokenBalances_bool tb then Some (nonzero tb) else None
           | None \<Rightarrow> None))
     \<and> (\<forall>x\<in>set p'. snd x \<noteq> [])"
proof -
  note D = PortfolioBalances_wf_D [OF wf]
  have l0: "lookup2 [] a b = None" for a b
    by (simp add: lookup2_def)
  have fr: "\<forall>x\<in>set p. \<forall>l. lookup2 ([]::PortfolioBalancesByCategory) l (fst x) = None"
    by (simp add: lookup2_def)
  from inverted_wallets_fresh [OF D(1) D(2) fr] obtain q
    where rq: "inverted_wallets p [] = Inr q"
      and Lq0: "\<forall>l w. lookup2 q l w =
          (case lookup2 p w l of
             Some tb \<Rightarrow> if TokenBalances_bool tb then Some (nonzero tb) else lookup2 ([]::PortfolioBalancesByCategory) l w
           | None \<Rightarrow> lookup2 ([]::PortfolioBalancesByCategory) l w)"
      and Nq0: "nested_distinct ([]::PortfolioBalancesByCategory) \<longrightarrow> nested_distinct q"
      and Vq0: "(\<forall>x\<in>set ([]::PortfolioBalancesByCategory). valid_label (fst x)) \<longrightarrow>
          (\<forall>x\<in>set p. \<forall>y\<in>set (snd x). valid_label (fst y)) \<longrightarrow>
          (\<forall>x\<in>set q. valid_label (fst x))"
    by blast
  have Lq: "lookup2 q l w =
          (case lookup2 p w l of
             Some tb \<Rightarrow> if TokenBalances_bool tb then Some (nonzero tb) else None
           | None \<Rightarrow> None)" for l w
    using Lq0 by (simp add: l0 split: option.splits)
  have Nq: "nested_distinct q" using Nq0 by (simp add: nested_distinct_def)
  have Vq: "\<forall>x\<in>set q. valid_label (fst x)" using Vq0 D(3) by simp
  have stored: "\<exists>tb. tb' = nonzero tb \<and> distinct (map fst tb) \<and> TokenBalances_bool tb"
    if "lookup2 q l w = Some tb'" for l w tb'
    using that D(4) [of w l] by (auto simp: Lq split: option.splits if_splits)
  have dq: "\<forall>x\<in>set q. \<forall>y\<in>set (snd x). distinct (map fst (snd y))"
  proof (intro ballI)
    fix x y
    assume "x \<in> set q" "y \<in> set (snd x)"
    then have "lookup2 q (fst x) (fst y) = Some (snd y)"
      by (intro lookup2_Some_I [OF Nq, of _ "snd x"]) simp_all
    from stored [OF this] show "distinct (map fst (snd y))"
      by (auto simp: distinct_nonzero)
  qed
  have fr2: "\<forall>x\<in>set q. \<forall>w. lookup2 ([]::PortfolioBalances) w (fst x) = None"
    by (simp add: lookup2_def)
  from invert_labels_fresh [OF Nq Vq dq fr2] obtain p'
    where rp: "invert_labels q [] = Inr p'"
      and L0: "\<forall>w l. lookup2 p' w l =
          (case lookup2 q l w of
             Some tb \<Rightarrow> if TokenBalances_bool tb then Some (nonzero tb) else lookup2 ([]::PortfolioBalances) w l
           | None \<Rightarrow> lookup2 ([]::PortfolioBalances) w l)"
      and E0: "(\<forall>x\<in>set ([]::PortfolioBalances). snd x \<noteq> []) \<longrightarrow> (\<forall>x\<in>set p'. snd x \<noteq> [])"
    by blast
  have L: "lookup2 p' w l =
          (case lookup2 q l w of
             Some tb \<Rightarrow> if TokenBalances_bool tb then Some (nonzero tb) else None
           | None \<Rightarrow> None)" for w l
    using L0 by (simp add: l0 split: option.splits)
  have E: "\<forall>x\<in>set p'. snd x \<noteq> []" using E0 by simp
  have "lookup2 p' w l =
          (case lookup2 p w l of
             Some tb \<Rightarrow> if TokenBalances_bool tb then Some (nonzero tb) else None
           | None \<Rightarrow> None)" for w l
    by (simp add: L Lq TokenBalances_bool_nonzero nonzero_idem split: option.splits)
  with rq rp E show ?thesis
    by (simp add: round_trip_def PortfolioBalances_inverted_def
        PortfolioBalancesByCategory_invert_def)
qed

lemma nonzero_pruned_D:
  assumes "nonzero_pruned p"
  shows "\<And>w wb. map_of p w = Some wb \<Longrightarrow> wb \<noteq> []"
    "\<And>w l tb. lookup2 p w l = Some tb \<Longrightarrow> TokenBalances_bool tb \<and> nonzero tb = tb"
proof -
  show "wb \<noteq> []" if "map_of p w = Some wb" for w wb
  proof -
    from map_of_SomeD [OF that] assms have "WalletBalances_bool wb"
      by (fastforce simp: nonzero_pruned_def)
    then show ?thesis by (auto simp: WalletBalances_bool_def)
  qed
  show "TokenBalances_bool tb \<and> nonzero tb = tb" if "lookup2 p w l = Some tb" for w l tb
  proof -
    from lookup2_Some_D [OF that] obtain wb where wb: "(w, wb) \<in> set p" "(l, tb) \<in> set wb"
      by blast
    with assms have "TokenBalances_bool tb" and "\<forall>x\<in>set tb. Balance_bool (snd x)"
      by (fastforce simp: nonzero_pruned_def)+
    then show ?thesis by (simp add: nonzero_all)
  qed
qed

text \<open>
  Claim C5.  On a \<open>PortfolioBalances\<close>, inverting to the category-first view and
  inverting back does not raise, and it neither introduces nor drops a non-zero entry:
  the result holds, for every wallet, category and token, the \<open>Balance\<close> that \<open>p\<close>
  holds there when it is non-zero, and nothing else.  When \<open>p\<close> is non-zero-pruned, with
  no zero entry at any level, the result is equal to \<open>p\<close>.  The hypothesis says that \<open>p\<close>
  is built of dictionaries whose categories passed the validation.
\<close>

theorem round_trip_keeps_nonzero:
  assumes wf: "PortfolioBalances_wf p"
  shows "\<exists>p'. round_trip p = Inr p'
     \<and> (\<forall>w l t. lookup3 p' w l t =
          (case lookup3 p w l t of
             Some b \<Rightarrow> if Balance_bool b then Some b else None
           | None \<Rightarrow> None))
     \<and> (nonzero_pruned p \<longrightarrow> PortfolioBalances_view p' = PortfolioBalances_view p)"
proof -
  from round_trip_lookup2 [OF wf] obtain p' where rt: "round_trip p = Inr p'"
    and L: "\<And>w l. lookup2 p' w l =
          (case lookup2 p w l of
             Some tb \<Rightarrow> if TokenBalances_bool tb then Some (nonzero tb) else None
           | None \<Rightarrow> None)"
    and E: "\<forall>x\<in>set p'. snd x \<noteq> []"
    by blast
  note D = PortfolioBalances_wf_D [OF wf]
  have entries: "lookup3 p' w l t =
          (case lookup3 p w l t of
             Some b \<Rightarrow> if Balance_bool b then Some b else None
           | None \<Rightarrow> None)" for w l t
  proof (cases "lookup2 p w l")
    case None
    then show ?thesis by (simp add: lookup3_def L)
  next
    case (Some tb)
    show ?thesis
    proof (cases "TokenBalances_bool tb")
      case True
      with Some D(4) [OF Some] show ?thesis
        by (simp add: lookup3_def L map_of_nonzero)
    next
      case False
      with Some map_of_all_zero [OF False, of t] show ?thesis
        by (auto simp: lookup3_def L split: option.splits)
    qed
  qed
  have view: "PortfolioBalances_view p' = PortfolioBalances_view p" if pr: "nonzero_pruned p"
  proof (rule ext)
    fix w
    note P = nonzero_pruned_D [OF pr]
    have l: "lookup2 p' w l = lookup2 p w l" for w l
      using P(2) [of w l] by (auto simp: L split: option.splits)
    show "PortfolioBalances_view p' w = PortfolioBalances_view p w"
    proof (cases "map_of p w")
      case None
      have "map_of p' w = None"
      proof (rule ccontr)
        assume "map_of p' w \<noteq> None"
        then obtain wb' where wb': "map_of p' w = Some wb'" by auto
        from map_of_SomeD [OF wb'] E have "wb' \<noteq> []" by fastforce
        from map_of_first [OF this] obtain k v where "map_of wb' k = Some v" by blast
        with wb' have "lookup2 p' w k = Some v" by (simp add: lookup2_def)
        with l [of w k] None show False by (simp add: lookup2_def)
      qed
      with None show ?thesis by (simp add: PortfolioBalances_view_def)
    next
      case (Some wb)
      from P(1) [OF Some] have "wb \<noteq> []" .
      from map_of_first [OF this] obtain k v where "map_of wb k = Some v" by blast
      with Some have "lookup2 p w k = Some v" by (simp add: lookup2_def)
      with l [of w k] obtain wb' where wb': "map_of p' w = Some wb'"
        by (auto simp: lookup2_def split: option.splits)
      have "map_of wb' k = map_of wb k" for k
        using l [of w k] Some wb' by (simp add: lookup2_def)
      then have "map_of wb' = map_of wb" by (rule ext)
      with Some wb' show ?thesis by (simp add: PortfolioBalances_view_def)
    qed
  qed
  from rt entries view show ?thesis by blast
qed

theorem round_trip_keeps_nonzero_witness:
  "PortfolioBalances_wf
     [(''0xW1'', [(''debt'', [(''TOK'', \<lparr>balance = Decimal 2, usd_value = Decimal 20\<rparr>)])]),
      (''0xW2'', [(''assets'', [(''TOK'', \<lparr>balance = Decimal 10, usd_value = Decimal 100\<rparr>)]),
                  (''debt'', [(''TOK'', \<lparr>balance = Decimal 1, usd_value = Decimal 10\<rparr>)])])]
   \<and> nonzero_pruned
     [(''0xW1'', [(''debt'', [(''TOK'', \<lparr>balance = Decimal 2, usd_value = Decimal 20\<rparr>)])]),
      (''0xW2'', [(''assets'', [(''TOK'', \<lparr>balance = Decimal 10, usd_value = Decimal 100\<rparr>)]),
                  (''debt'', [(''TOK'', \<lparr>balance = Decimal 1, usd_value = Decimal 10\<rparr>)])])]
   \<and> round_trip
     [(''0xW1'', [(''debt'', [(''TOK'', \<lparr>balance = Decimal 2, usd_value = Decimal 20\<rparr>)])]),
      (''0xW2'', [(''assets'', [(''TOK'', \<lparr>balance = Decimal 10, usd_value = Decimal 100\<rparr>)]),
                  (''debt'', [(''TOK'', \<lparr>balance = Decimal 1, usd_value = Decimal 10\<rparr>)])])] =
     Inr
     [(''0xW1'', [(''debt'', [(''TOK'', \<lparr>balance = Decimal 2, usd_value = Decimal 20\<rparr>)])]),
      (''0xW2'', [(''debt'', [(''TOK'', \<lparr>balance = Decimal 1, usd_value = Decimal 10\<rparr>)]),
                  (''assets'', [(''TOK'', \<lparr>balance = Decimal 10, usd_value = Decimal 100\<rparr>)])])]
   \<and> PortfolioBalances_view
     [(''0xW1'', [(''debt'', [(''TOK'', \<lparr>balance = Decimal 2, usd_value = Decimal 20\<rparr>)])]),
      (''0xW2'', [(''debt'', [(''TOK'', \<lparr>balance = Decimal 1, usd_value = Decimal 10\<rparr>)]),
                  (''assets'', [(''TOK'', \<lparr>balance = Decimal 10, usd_value = Decimal 100\<rparr>)])])] =
     PortfolioBalances_view
     [(''0xW1'', [(''debt'', [(''TOK'', \<lparr>balance = Decimal 2, usd_value = Decimal 20\<rparr>)])]),
      (''0xW2'', [(''assets'', [(''TOK'', \<lparr>balance = Decimal 10, usd_value = Decimal 100\<rparr>)]),
                  (''debt'', [(''TOK'', \<lparr>balance = Decimal 1, usd_value = Decimal 10\<rparr>)])])]"
proof -
  let ?p = "[(''0xW1'', [(''debt'', [(''TOK'', \<lparr>balance = Decimal 2, usd_value = Decimal 20\<rparr>)])]),
      (''0xW2'', [(''assets'', [(''TOK'', \<lparr>balance = Decimal 10, usd_value = Decimal 100\<rparr>)]),
                  (''debt'', [(''TOK'', \<lparr>balance = Decimal 1, usd_value = Decimal 10\<rparr>)])])]"
  let ?r = "[(''0xW1'', [(''debt'', [(''TOK'', \<lparr>balance = Decimal 2, usd_value = Decimal 20\<rparr>)])]),
      (''0xW2'', [(''debt'', [(''TOK'', \<lparr>balance = Decimal 1, usd_value = Decimal 10\<rparr>)]),
                  (''assets'', [(''TOK'', \<lparr>balance = Decimal 10, usd_value = Decimal 100\<rparr>)])])]"
  have wf: "PortfolioBalances_wf ?p"
    by (simp add: PortfolioBalances_wf_def valid_label_def)
  have pr: "nonzero_pruned ?p"
    by (simp add: nonzero_pruned_def WalletBalances_bool_def TokenBalances_bool_def
        Balance_bool_def dec_is_zero_def Decimal_def)
  have ev: "round_trip ?p = Inr ?r"
    by (simp add: round_trip_def PortfolioBalances_inverted_def
        PortfolioBalancesByCategory_invert_def inverted_iadd_def invert_iadd_def
        defaultdict_getitem_def TokenBalances_bool_def TokenBalances_add_def
        setattr_nochecksum_def WalletBalances_getitem_def WalletBalances_setitem_def
        validateitem_def Balance_bool_def dec_is_zero_def Decimal_def)
  from round_trip_keeps_nonzero [OF wf] pr ev
  have "PortfolioBalances_view ?r = PortfolioBalances_view ?p" by auto
  with wf pr ev show ?thesis by blast
qed

section \<open>Properties of the snapshot\<close>

lemma no_slots_after: "no_slots = slots_after e t d st c {}"
  by (simp add: no_slots_def slots_after_def)

lemma complete_success:
  assumes "eth_balance lk = Inr e" "token_balances lk = Inr t" "debt lk = Inr d"
    "staking lk = Inr st" "collateral lk = Inr c"
  shows "complete lk r (slots_after e t d st c D) =
     (if r = Staking \<and> Collateral \<in> D \<or> r = Collateral \<and> Staking \<in> D
      then (case external_balances_async st c of
              Inl err \<Rightarrow> Inl err
            | Inr x \<Rightarrow> Inr (slots_after e t d st c (insert r D)))
      else Inr (slots_after e t d st c (insert r D)))"
  by (cases r)
     (auto simp: assms slots_after_def join_assets_def join_external_def split: sum.splits)

lemma run_lookups_success:
  assumes "eth_balance lk = Inr e" "token_balances lk = Inr t" "debt lk = Inr d"
    "staking lk = Inr st" "collateral lk = Inr c"
    and "external_balances_async st c = Inr x"
  shows "run_lookups lk order (slots_after e t d st c D) =
     Inr (slots_after e t d st c (D \<union> set order))"
proof (induction order arbitrary: D)
  case Nil
  show ?case by simp
next
  case (Cons r order)
  have "complete lk r (slots_after e t d st c D) = Inr (slots_after e t d st c (insert r D))"
    by (simp add: complete_success [OF assms(1-5)] assms(6))
  then show ?case by (simp add: Cons.IH)
qed

lemma run_lookups_add_raises:
  assumes "eth_balance lk = Inr e" "token_balances lk = Inr t" "debt lk = Inr d"
    "staking lk = Inr st" "collateral lk = Inr c"
    and "external_balances_async st c = Inl err"
  shows "\<not> (Staking \<in> D \<and> Collateral \<in> D) \<Longrightarrow> Staking \<in> D \<union> set order \<Longrightarrow>
     Collateral \<in> D \<union> set order \<Longrightarrow>
     run_lookups lk order (slots_after e t d st c D) = Inl err"
proof (induction order arbitrary: D)
  case Nil
  then show ?case by simp
next
  case (Cons r order)
  show ?case
  proof (cases "r = Staking \<and> Collateral \<in> D \<or> r = Collateral \<and> Staking \<in> D")
    case True
    then show ?thesis by (simp add: complete_success [OF assms(1-5)] assms(6))
  next
    case False
    then have step: "complete lk r (slots_after e t d st c D) =
        Inr (slots_after e t d st c (insert r D))"
      by (auto simp: complete_success [OF assms(1-5)])
    have "\<not> (Staking \<in> insert r D \<and> Collateral \<in> insert r D)"
      using False Cons.prems(1) by auto
    moreover have "Staking \<in> insert r D \<union> set order" "Collateral \<in> insert r D \<union> set order"
      using Cons.prems(2,3) by auto
    ultimately have "run_lookups lk order (slots_after e t d st c (insert r D)) = Inl err"
      by (rule Cons.IH)
    with step show ?thesis by simp
  qed
qed

lemma assign_balances_raises: "assign_balances res = Inl KeyError"
  by (cases res) (simp add: assign_balances_def WalletBalances_setitem_def validateitem_def)

text \<open>
  Claim C1.  \<open>describe(wallet, block)\<close> is claimed to return a \<open>WalletBalances\<close> with
  the categories \<open>'assets'\<close> and \<open>'debt'\<close>, the staking and collateral balances merged
  into the assets.  The code stores them under a third key, \<open>'external'\<close>, which
  \<open>WalletBalances.__setitem__\<close> refuses: for every block that passes the assertions,
  whatever the five lookups return and in whatever order they complete, the call
  raises.  The exception is \<open>KeyError\<close>, unless the sum of the staking and collateral
  balances has raised before.
\<close>

theorem describe_async_raises:
  "i \<noteq> 0 \<Longrightarrow> set order = set fns_order \<Longrightarrow>
   describe_async (BInt i) order
     \<lparr>eth_balance = Inr e, token_balances = Inr t, debt = Inr d, staking = Inr s,
      collateral = Inr c\<rparr> =
   Some (Inl (case TokenBalances_add s c of Inl err \<Rightarrow> err | Inr x \<Rightarrow> KeyError))"
proof -
  let ?lk = "\<lparr>eth_balance = Inr e, token_balances = Inr t, debt = Inr d, staking = Inr s,
      collateral = Inr c\<rparr>"
  assume i: "i \<noteq> 0" and o: "set order = set fns_order"
  show ?thesis
  proof (cases "TokenBalances_add s c")
    case (Inl err)
    have "run_lookups ?lk order (slots_after e t d s c {}) = Inl err"
      by (rule run_lookups_add_raises)
         (simp_all add: external_balances_async_def Inl o fns_order_def)
    with i Inl show ?thesis
      by (simp add: describe_async_def fan_out_def no_slots_after [of e t d s c])
  next
    case (Inr x)
    have "run_lookups ?lk order (slots_after e t d s c {}) =
        Inr (slots_after e t d s c ({} \<union> set order))"
      by (rule run_lookups_success [where x = x])
         (simp_all add: external_balances_async_def Inr)
    with i Inr show ?thesis
      by (simp add: describe_async_def fan_out_def no_slots_after [of e t d s c] o fns_order_def
          slots_after_def gathered_def external_balances_async_def assign_balances_raises)
  qed
qed

theorem describe_async_raises_witness:
  "(1::int) \<noteq> 0
   \<and> set [Collateral, Debt, Staking, TokenBalancesOf, EthBalance] = set fns_order
   \<and> describe_async (BInt 1) [Collateral, Debt, Staking, TokenBalancesOf, EthBalance]
     \<lparr>eth_balance = Inr \<lparr>balance = Decimal 1, usd_value = Decimal 2000\<rparr>,
      token_balances = Inr [(''TOK'', \<lparr>balance = Decimal 10, usd_value = Decimal 100\<rparr>)],
      debt = Inr [(''DAI'', \<lparr>balance = Decimal 2, usd_value = Decimal 2\<rparr>)],
      staking = Inr [(''CVX'', \<lparr>balance = Decimal 3, usd_value = Decimal 9\<rparr>)],
      collateral = Inr []\<rparr> =
   Some (Inl KeyError)"
proof -
  have s: "set [Collateral, Debt, Staking, TokenBalancesOf, EthBalance] = set fns_order"
    by (auto simp: fns_order_def)
  have a: "TokenBalances_add [(''CVX'', \<lparr>balance = Decimal 3, usd_value = Decimal 9\<rparr>)] [] =
      Inr [(''CVX'', \<lparr>balance = Decimal 3, usd_value = Decimal 9\<rparr>)]"
    by (simp add: TokenBalances_add_def setattr_nochecksum_def Balance_bool_def dec_is_zero_def
        Decimal_def)
  show ?thesis
    using describe_async_raises [OF _ s, of 1
        "\<lparr>balance = Decimal 1, usd_value = Decimal 2000\<rparr>"
        "[(''TOK'', \<lparr>balance = Decimal 10, usd_value = Decimal 100\<rparr>)]"
        "[(''DAI'', \<lparr>balance = Decimal 2, usd_value = Decimal 2\<rparr>)]"
        "[(''CVX'', \<lparr>balance = Decimal 3, usd_value = Decimal 9\<rparr>)]" "[]"] s
    by (simp add: a)
qed

text \<open>
  Claim C2.  The merged \<open>WalletBalances\<close> of a snapshot is claimed to be the same for
  every completion order of the five lookups.  There is no merged \<open>WalletBalances\<close> to
  compare: whatever the block, the results of the lookups and the order in which they
  complete, \<open>describe\<close> does not return one.  It is the defect that claim C1 meets.
\<close>

theorem describe_async_never_returns:
  "describe_async block order lk \<noteq> Some (Inr wb)"
  by (auto simp: describe_async_def fan_out_def assign_balances_raises split: sum.splits)

text \<open>
  Claim C4.  A \<open>describe\<close> with a non-positive or non-integral block is claimed to fail
  fast, before the fan-out.  A negative block passes both assertions: with block \<open>-1\<close>
  and a debt lookup that fails, the call ends with the exception of that lookup, so the
  lookups were issued.
\<close>

theorem describe_async_negative_block:
  "describe_async (BInt (- 1)) fns_order
     \<lparr>eth_balance = Inr \<lparr>balance = Decimal 1, usd_value = Decimal 2000\<rparr>,
      token_balances = Inr [], debt = Inl (CollaboratorError ''ChainQueryError''),
      staking = Inr [], collateral = Inr []\<rparr> =
   Some (Inl (CollaboratorError ''ChainQueryError''))"
  by (simp add: describe_async_def fan_out_def fns_order_def no_slots_def join_assets_def)

text \<open>
  Claim C4, as amended.  A block that is zero, \<open>False\<close>, \<open>None\<close> or not an \<open>int\<close> (a
  string, a \<open>Decimal\<close>) makes \<open>describe\<close> raise \<open>AssertionError\<close> whatever the lookups
  would do and in whatever order; every other integer block, the negative ones as well,
  passes the assertions and the call is the fan-out.
\<close>

theorem describe_async_block_guard:
  "(b = BInt 0 \<or> b = BBool False \<or> b = BNone \<or> b = BStr s \<or> b = BDec d \<longrightarrow>
      describe_async b order lk = Some (Inl AssertionError))
   \<and> (i \<noteq> 0 \<longrightarrow> describe_async (BInt i) order lk = fan_out order lk)"
  by (auto simp: describe_async_def)

theorem describe_async_block_guard_witness:
  "describe_async BNone fns_order
     \<lparr>eth_balance = Inr \<lparr>balance = Decimal 1, usd_value = Decimal 2000\<rparr>,
      token_balances = Inr [], debt = Inr [], staking = Inr [], collateral = Inr []\<rparr> =
     Some (Inl AssertionError)
   \<and> describe_async (BInt (- 1)) fns_order
     \<lparr>eth_balance = Inr \<lparr>balance = Decimal 1, usd_value = Decimal 2000\<rparr>,
      token_balances = Inr [], debt = Inr [], staking = Inr [], collateral = Inr []\<rparr> =
     fan_out fns_order
     \<lparr>eth_balance = Inr \<lparr>balance = Decimal 1, usd_value = Decimal 2000\<rparr>,
      token_balances = Inr [], debt = Inr [], staking = Inr [], collateral = Inr []\<rparr>"
  using describe_async_block_guard
    [where b = BNone and i = "- 1" and order = fns_order and
      lk = "\<lparr>eth_balance = Inr \<lparr>balance = Decimal 1, usd_value = Decimal 2000\<rparr>,
        token_balances = Inr [], debt = Inr [], staking = Inr [], collateral = Inr []\<rparr>"]
  by simp

subsection \<open>Price application\<close>

lemma dec_round_error: "dec_round d n = Inl e \<Longrightarrow> e = InvalidOperation"
  by (auto simp: dec_round_def Let_def split: if_splits)

lemma calc_value_total: "\<exists>v. calc_value amount price = Inr v"
proof (cases price)
  case None
  then show ?thesis by (simp add: calc_value_def)
next
  case (Some p)
  show ?thesis
  proof (cases "dec_round (dec_mul amount p) 18")
    case (Inl e)
    with dec_round_error [OF Inl] Some show ?thesis by (simp add: calc_value_def)
  next
    case (Inr r)
    with Some show ?thesis by (simp add: calc_value_def)
  qed
qed

text \<open>
  Claim C8.  Price application is claimed to be total.  For the tokens it is:
  \<open>_calc_value\<close> returns zero for a missing price and the unrounded product when
  \<open>round\<close> raises, so the \<open>Balance\<close> of a token is always built and keeps the amount.
  \<open>_eth_balance_async\<close> applies the price of the native asset without either guard:
  ten million ETH at a price of 2000 give \<open>2E+10\<close>, which has no 18 fractional digits
  within 28 significant ones, and \<open>InvalidOperation\<close> leaves the function; a missing
  price raises \<open>TypeError\<close>.
\<close>

theorem eth_balance_async_raises:
  "eth_balance_async (Decimal 10000000) (Some (Decimal 2000)) = Inl InvalidOperation
   \<and> token_Balance (Decimal 10000000) (Some (Decimal 2000)) =
       Inr \<lparr>balance = Decimal 10000000, usd_value = Decimal 20000000000\<rparr>
   \<and> eth_balance_async amount None = Inl TypeError
   \<and> token_Balance amount None = Inr \<lparr>balance = amount, usd_value = Decimal 0\<rparr>
   \<and> (\<exists>v. token_Balance amount price = Inr \<lparr>balance = amount, usd_value = v\<rparr>)"
proof (intro conjI)
  show "eth_balance_async (Decimal 10000000) (Some (Decimal 2000)) = Inl InvalidOperation"
    by (simp add: eth_balance_async_def dec_mul_def dec_round_def dec_fix_def
        Decimal_def ndigits.simps prec_def)
  show "token_Balance (Decimal 10000000) (Some (Decimal 2000)) =
       Inr \<lparr>balance = Decimal 10000000, usd_value = Decimal 20000000000\<rparr>"
    by (simp add: token_Balance_def calc_value_def dec_mul_def dec_round_def dec_fix_def
        Decimal_def ndigits.simps prec_def)
  show "eth_balance_async amount None = Inl TypeError"
    by (simp add: eth_balance_async_def)
  show "token_Balance amount None = Inr \<lparr>balance = amount, usd_value = Decimal 0\<rparr>"
    by (simp add: token_Balance_def calc_value_def)
  from calc_value_total [of amount price]
  show "\<exists>v. token_Balance amount price = Inr \<lparr>balance = amount, usd_value = v\<rparr>"
    by (auto simp: token_Balance_def)
qed

end
